theory Spec2Isabelle
  imports Complex_Main "HOL-Library.Sublist" "HOL-Library.Multiset" "HOL-Library.Log_Nat"
begin

section \<open>JavaScript numbers\<close>

text \<open>
  A number is a binary64 floating-point number; the finite ones are rationals. Every
  arithmetic operation returns the exact result rounded to the nearest binary64 number, a
  tie to the one with an even significand. \<open>to_double\<close> is that rounding, with 53 bits
  of significand and an exponent that is not bounded (no overflow and no subnormal
  numbers: the quotients and products of the program are far inside the range).
\<close>

text \<open>The exponent \<open>e\<close> with \<open>2 ^ e \<le> q < 2 ^ (e + 1)\<close>, for a positive \<open>q\<close>.\<close>

definition floor_log2 :: "rat \<Rightarrow> int" where
  "floor_log2 q = (let (a, b) = quotient_of q; e0 = bitlen a - bitlen b
                   in if 2 powi e0 \<le> q then e0 else e0 - 1)"

definition round_half_even :: "rat \<Rightarrow> int" where
  "round_half_even x = (let f = \<lfloor>x\<rfloor> in
      if x - of_int f < 1 / 2 then f
      else if 1 / 2 < x - of_int f then f + 1
      else if even f then f else f + 1)"

definition to_double :: "rat \<Rightarrow> rat" where
  "to_double q = (if q = 0 then 0
                  else let e = floor_log2 \<bar>q\<bar>; m = round_half_even (\<bar>q\<bar> * 2 powi (52 - e))
                       in sgn q * of_int m * 2 powi (e - 52))"

text \<open>
  \<^verbatim>\<open>Math.round\<close> of a finite number: the nearest integer, a tie upwards.
  \<^verbatim>\<open>Math.floor\<close> is \<open>\<lfloor>_\<rfloor>\<close>.
\<close>

definition Math_round :: "rat \<Rightarrow> int" where
  "Math_round x = \<lfloor>x + 1 / 2\<rfloor>"

section \<open>JavaScript strings\<close>

text \<open>
  A string is a list of code units. The embedding covers the code units below 256
  (Latin-1), one \<^typ>\<open>char\<close> each. Among those, the white space of
  \<^verbatim>\<open>String.prototype.trim\<close> and of the regular expression class
  \<^verbatim>\<open>\s\<close> is TAB, LF, VT, FF, CR, SPACE and NBSP.
\<close>

definition isWhiteSpace :: "char \<Rightarrow> bool" where
  "isWhiteSpace c \<longleftrightarrow>
     c = CHR 0x09 \<or> c = CHR 0x0A \<or> c = CHR 0x0B \<or> c = CHR 0x0C \<or> c = CHR 0x0D \<or>
     c = CHR 0x20 \<or> c = CHR 0xA0"

definition trim :: "string \<Rightarrow> string" where
  "trim s = rev (dropWhile isWhiteSpace (rev (dropWhile isWhiteSpace s)))"

section \<open>JSON values, exceptions and the file system\<close>

text \<open>
  What \<^verbatim>\<open>JSON.parse\<close> returns. The parser itself is a built-in of the language and
  is a parameter \<open>JSON_parse\<close> of every function that calls it: \<open>Inl SyntaxError\<close>
  is the exception it throws on malformed text.
\<close>

datatype json =
    JNull
  | JBool bool
  | JNumber rat
  | JString string
  | JArray "json list"
  | JObject "(string \<times> json) list"

datatype js_error = SyntaxError | TypeError | IOError

type_synonym parser = "string \<Rightarrow> js_error + json"

text \<open>
  The file system is a map from paths to nodes. \<^verbatim>\<open>existsSync\<close> holds of files and of
  directories; \<^verbatim>\<open>readFileSync\<close> throws on everything but a file;
  \<^verbatim>\<open>writeFileSync\<close> throws when the path is a directory or its parent is not one.
  Paths are opaque keys: \<^verbatim>\<open>path.join\<close> is concatenation with a separator and
  \<^verbatim>\<open>path.dirname\<close> is the part before the last separator (no normalisation).
  \<^verbatim>\<open>mkdirSync(dir, { recursive: true })\<close> is called only where nothing exists at
  \<open>dir\<close>; the parents it creates on the way are not recorded.
\<close>

datatype node = File string | Directory

type_synonym filesystem = "string \<rightharpoonup> node"

definition join :: "string \<Rightarrow> string \<Rightarrow> string" where
  "join dir name = dir @ ''/'' @ name"

definition dirname :: "string \<Rightarrow> string" where
  "dirname p =
     (let d = rev (drop 1 (dropWhile (\<lambda>c. c \<noteq> CHR ''/'') (rev p)))
      in if d \<noteq> [] then d else if take 1 p = ''/'' then ''/'' else ''.'')"

definition existsSync :: "filesystem \<Rightarrow> string \<Rightarrow> bool" where
  "existsSync fs p \<longleftrightarrow> fs p \<noteq> None"

definition readFileSync :: "filesystem \<Rightarrow> string \<Rightarrow> js_error + string" where
  "readFileSync fs p = (case fs p of Some (File c) \<Rightarrow> Inr c | _ \<Rightarrow> Inl IOError)"

definition writeFileSync :: "filesystem \<Rightarrow> string \<Rightarrow> string \<Rightarrow> js_error + filesystem" where
  "writeFileSync fs p c =
     (case fs p of
        Some Directory \<Rightarrow> Inl IOError
      | _ \<Rightarrow> (case fs (dirname p) of
                Some Directory \<Rightarrow> Inr (fs(p \<mapsto> File c))
              | _ \<Rightarrow> Inl IOError))"

definition mkdirSync :: "filesystem \<Rightarrow> string \<Rightarrow> filesystem" where
  "mkdirSync fs dir = fs(dir \<mapsto> Directory)"

section \<open>Input history (packages/coding-agent/src/core/input-history.ts)\<close>

definition MAX_HISTORY_SIZE :: nat where
  "MAX_HISTORY_SIZE = 150"

record InputHistoryManager =
  historyPath :: string
  history :: "string list"
  persist :: bool

text \<open>\<^verbatim>\<open>Array.isArray(data)\<close> and \<^verbatim>\<open>typeof item === "string"\<close>\<close>

definition Array_isArray :: "json \<Rightarrow> bool" where
  "Array_isArray data = (case data of JArray items \<Rightarrow> True | _ \<Rightarrow> False)"

definition typeof_string :: "json \<Rightarrow> bool" where
  "typeof_string item = (case item of JString s \<Rightarrow> True | _ \<Rightarrow> False)"

text \<open>\<^verbatim>\<open>data.filter((item): item is string => typeof item === "string")\<close>\<close>

fun filter_strings :: "json list \<Rightarrow> string list" where
  "filter_strings [] = []"
| "filter_strings (JString s # items) = s # filter_strings items"
| "filter_strings (_ # items) = filter_strings items"

text \<open>
  \<^verbatim>\<open>load\<close>: the body of the \<^verbatim>\<open>try\<close> is the read followed by the parse; either
  exception reaches the \<^verbatim>\<open>catch\<close>, which resets the history.
\<close>

definition load :: "parser \<Rightarrow> filesystem \<Rightarrow> InputHistoryManager \<Rightarrow> InputHistoryManager" where
  "load JSON_parse fs m =
     (if \<not> persist m \<or> \<not> existsSync fs (historyPath m) then m
      else (case readFileSync fs (historyPath m) of
              Inl e \<Rightarrow> m\<lparr>history := []\<rparr>
            | Inr content \<Rightarrow>
                (case JSON_parse content of
                   Inl e \<Rightarrow> m\<lparr>history := []\<rparr>
                 | Inr (JArray items) \<Rightarrow>
                     m\<lparr>history := take MAX_HISTORY_SIZE (filter_strings items)\<rparr>
                 | Inr _ \<Rightarrow> m)))"

text \<open>
  What \<^verbatim>\<open>JSON.parse\<close> returns on the file contents of the repository's tests (an
  array of mixed types, an object) and that it throws on text that is not JSON.
\<close>

definition example_parser :: parser where
  "example_parser c =
     (if c = ''[\"valid\", 123, null, \"also valid\", {}]''
      then Inr (JArray [JString ''valid'', JNumber 123, JNull, JString ''also valid'', JObject []])
      else if c = ''{\"foo\": \"bar\"}'' then Inr (JObject [(''foo'', JString ''bar'')])
      else Inl SyntaxError)"

text \<open>The private constructor: the field initialisers, then \<^verbatim>\<open>this.load()\<close>.\<close>

definition new_InputHistoryManager ::
  "parser \<Rightarrow> filesystem \<Rightarrow> string \<Rightarrow> bool \<Rightarrow> InputHistoryManager" where
  "new_InputHistoryManager JSON_parse fs path p =
     load JSON_parse fs \<lparr>historyPath = path, history = [], persist = p\<rparr>"

definition create :: "parser \<Rightarrow> filesystem \<Rightarrow> string \<Rightarrow> InputHistoryManager" where
  "create JSON_parse fs agentDir =
     new_InputHistoryManager JSON_parse fs (join agentDir ''input-history.json'') True"

definition inMemory :: "parser \<Rightarrow> filesystem \<Rightarrow> InputHistoryManager" where
  "inMemory JSON_parse fs = new_InputHistoryManager JSON_parse fs [] False"

text \<open>
  \<^verbatim>\<open>save\<close> creates the directory of the file if nothing exists there and writes
  \<^verbatim>\<open>JSON.stringify(this.history, null, 2)\<close>; the serialiser is the parameter
  \<open>JSON_stringify\<close>. A failed write is swallowed by the \<^verbatim>\<open>catch\<close>, the directory
  then stays.
\<close>

definition save :: "(json \<Rightarrow> string) \<Rightarrow> InputHistoryManager \<Rightarrow> filesystem \<Rightarrow> filesystem" where
  "save JSON_stringify m fs =
     (if \<not> persist m then fs
      else
        let dir = dirname (historyPath m);
            fs1 = (if \<not> existsSync fs dir then mkdirSync fs dir else fs)
        in (case writeFileSync fs1 (historyPath m)
                   (JSON_stringify (JArray (map JString (history m)))) of
              Inl e \<Rightarrow> fs1
            | Inr fs2 \<Rightarrow> fs2))"

definition add ::
  "(json \<Rightarrow> string) \<Rightarrow> string \<Rightarrow> InputHistoryManager \<times> filesystem \<Rightarrow>
     InputHistoryManager \<times> filesystem" where
  "add JSON_stringify text_in mfs =
     (let m = fst mfs; fs = snd mfs; trimmed = trim text_in in
      if trimmed = [] then (m, fs)
      else if length (history m) > 0 \<and> hd (history m) = trimmed then (m, fs)
      else
        let unshifted = trimmed # history m;
            limited = (if length unshifted > MAX_HISTORY_SIZE
                       then take MAX_HISTORY_SIZE unshifted else unshifted);
            m' = m\<lparr>history := limited\<rparr>
        in (m', save JSON_stringify m' fs))"

definition getAll :: "InputHistoryManager \<Rightarrow> string list" where
  "getAll m = history m"

text \<open>\<^verbatim>\<open>get(index)\<close>: \<^verbatim>\<open>undefined\<close> out of range.\<close>

definition get :: "InputHistoryManager \<Rightarrow> nat \<Rightarrow> string option" where
  "get m i = (if i < length (history m) then Some (history m ! i) else None)"

definition length_of :: "InputHistoryManager \<Rightarrow> nat" where
  "length_of m = length (history m)"

definition clear ::
  "(json \<Rightarrow> string) \<Rightarrow> InputHistoryManager \<times> filesystem \<Rightarrow> InputHistoryManager \<times> filesystem" where
  "clear JSON_stringify mfs =
     (let m' = (fst mfs)\<lparr>history := []\<rparr> in (m', save JSON_stringify m' (snd mfs)))"

text \<open>Adding a sequence of texts, first to last.\<close>

definition add_all ::
  "(json \<Rightarrow> string) \<Rightarrow> string list \<Rightarrow> InputHistoryManager \<times> filesystem \<Rightarrow>
     InputHistoryManager \<times> filesystem" where
  "add_all JSON_stringify texts mfs = foldl (\<lambda>s t. add JSON_stringify t s) mfs texts"

text \<open>
  The reference definition of \<^verbatim>\<open>add\<close>, following the specification's words: trim;
  ignore if empty or equal to the current most-recent entry; prepend; truncate to 150 by
  dropping the oldest.
\<close>

definition add_reference :: "string \<Rightarrow> string list \<Rightarrow> string list" where
  "add_reference text_in h =
     (let t = trim text_in in
      if t = [] \<or> (case h of [] \<Rightarrow> False | newest # _ \<Rightarrow> newest = t) then h
      else take 150 (t # h))"

text \<open>
  The entries of the test \<^verbatim>\<open>limits history to 150 entries\<close>:
  \<^verbatim>\<open>`entry-${i}`\<close>, the number in decimal.
\<close>

definition digit_char :: "nat \<Rightarrow> char" where
  "digit_char d = ''0123456789'' ! d"

function decimal :: "nat \<Rightarrow> string" where
  "decimal n = (if n < 10 then [digit_char n] else decimal (n div 10) @ [digit_char (n mod 10)])"
  by pat_completeness auto
termination
  by (relation "measure id") auto

declare decimal.simps [simp del]

definition entry :: "nat \<Rightarrow> string" where
  "entry i = ''entry-'' @ decimal i"

text \<open>The number a decimal numeral denotes (the inverse of \<open>decimal\<close>).\<close>

fun decimal_value :: "string \<Rightarrow> nat" where
  "decimal_value s = foldl (\<lambda>a c. 10 * a + (of_char c - 48)) 0 s"

section \<open>Checkpoint store (examples/extensions/checkpoint.ts)\<close>

subsection \<open>Exceptions\<close>

text \<open>
  A computation that may throw returns \<open>js_error + 'a\<close>. \<open>and_then\<close> sequences two
  statements; \<open>try_catch\<close> is \<^verbatim>\<open>try { body } catch { handler }\<close>.
\<close>

definition and_then :: "js_error + 'a \<Rightarrow> ('a \<Rightarrow> js_error + 'b) \<Rightarrow> js_error + 'b" where
  "and_then r f = (case r of Inl e \<Rightarrow> Inl e | Inr v \<Rightarrow> f v)"

definition try_catch :: "js_error + 'a \<Rightarrow> (js_error \<Rightarrow> js_error + 'a) \<Rightarrow> js_error + 'a" where
  "try_catch body handler = (case body of Inl e \<Rightarrow> handler e | Inr v \<Rightarrow> Inr v)"

subsection \<open>Paths and identifiers\<close>

text \<open>
  \<^verbatim>\<open>CHECKPOINTS_DIR = join(homedir(), ".pi", "agent", "checkpoints")\<close>; the home
  directory is a parameter.
\<close>

definition CHECKPOINTS_DIR :: "string \<Rightarrow> string" where
  "CHECKPOINTS_DIR home = join (join (join home ''.pi'') ''agent'') ''checkpoints''"

definition ID_CHARS :: string where
  "ID_CHARS = ''abcdefghjkmnpqrstuvwxyz23456789''"

text \<open>
  \<^verbatim>\<open>generateShortId\<close>: \<open>random i\<close> is what the \<open>i\<close>-th call of
  \<^verbatim>\<open>Math.random()\<close> returns, a binary64 number. An index out of range reads
  \<^verbatim>\<open>undefined\<close>, which the concatenation prints.
\<close>

definition generateShortId :: "(nat \<Rightarrow> rat) \<Rightarrow> string" where
  "generateShortId random =
     concat (map (\<lambda>i. let k = \<lfloor>to_double (random i * of_nat (length ID_CHARS))\<rfloor> in
                         if 0 \<le> k \<and> nat k < length ID_CHARS then [ID_CHARS ! nat k]
                         else ''undefined'')
                 [0..<6])"

text \<open>\<^verbatim>\<open>id.replace(/[^a-zA-Z0-9_-]/g, "_")\<close>, one code unit at a time.\<close>

definition in_range :: "char \<Rightarrow> char \<Rightarrow> char \<Rightarrow> bool" where
  "in_range lo hi c \<longleftrightarrow> (of_char lo :: nat) \<le> of_char c \<and> (of_char c :: nat) \<le> of_char hi"

definition safe_char :: "char \<Rightarrow> bool" where
  "safe_char c \<longleftrightarrow>
     in_range CHR ''a'' CHR ''z'' c \<or> in_range CHR ''A'' CHR ''Z'' c \<or>
     in_range CHR ''0'' CHR ''9'' c \<or> c = CHR ''_'' \<or> c = CHR ''-''"

definition getCheckpointPath :: "string \<Rightarrow> string \<Rightarrow> string" where
  "getCheckpointPath home ident =
     (let safeId = map (\<lambda>c. if safe_char c then c else CHR ''_'') ident
      in join (CHECKPOINTS_DIR home) (safeId @ ''.json''))"

definition ensureCheckpointsDir :: "string \<Rightarrow> filesystem \<Rightarrow> filesystem" where
  "ensureCheckpointsDir home fs =
     (if \<not> existsSync fs (CHECKPOINTS_DIR home) then mkdirSync fs (CHECKPOINTS_DIR home)
      else fs)"

subsection \<open>Loading\<close>

text \<open>
  \<^verbatim>\<open>loadCheckpoint\<close> returns the parsed value under the unchecked cast
  \<^verbatim>\<open>as Checkpoint\<close>, or \<^verbatim>\<open>null\<close> (\<open>JNull\<close>). The result type has room for an
  exception that escapes.
\<close>

definition loadCheckpoint :: "parser \<Rightarrow> string \<Rightarrow> filesystem \<Rightarrow> string \<Rightarrow> js_error + json" where
  "loadCheckpoint JSON_parse home fs ident =
     (let path = getCheckpointPath home ident in
      if \<not> existsSync fs path then Inr JNull
      else try_catch
             (and_then (readFileSync fs path) (\<lambda>content. JSON_parse content))
             (\<lambda>e. Inr JNull))"

subsection \<open>Listing\<close>

text \<open>
  Reading a property of a parsed value: \<open>None\<close> is \<^verbatim>\<open>undefined\<close>; reading a property
  of \<^verbatim>\<open>null\<close> or of \<^verbatim>\<open>undefined\<close> throws a TypeError. The properties the program
  reads (\<open>id\<close>, \<open>timestamp\<close>, \<open>description\<close>, \<open>stats\<close>, \<open>messageCount\<close>) are own
  properties of objects only. When a key is bound twice, the last binding counts.
\<close>

definition get_prop :: "json option \<Rightarrow> string \<Rightarrow> js_error + json option" where
  "get_prop v k =
     (case v of
        None \<Rightarrow> Inl TypeError
      | Some JNull \<Rightarrow> Inl TypeError
      | Some (JObject kvs) \<Rightarrow> Inr (map_of (rev kvs) k)
      | Some _ \<Rightarrow> Inr None)"

record summary =
  s_id :: "json option"
  s_timestamp :: "json option"
  s_description :: "json option"
  s_messageCount :: "json option"

text \<open>The object literal pushed in the loop of \<^verbatim>\<open>listCheckpoints\<close>, its properties in order.\<close>

definition summary_of :: "json \<Rightarrow> js_error + summary" where
  "summary_of checkpoint =
     and_then (get_prop (Some checkpoint) ''id'') (\<lambda>i.
     and_then (get_prop (Some checkpoint) ''timestamp'') (\<lambda>t.
     and_then (get_prop (Some checkpoint) ''description'') (\<lambda>d.
     and_then (get_prop (Some checkpoint) ''stats'') (\<lambda>stats.
     and_then (get_prop stats ''messageCount'') (\<lambda>mc.
       Inr \<lparr>s_id = i, s_timestamp = t, s_description = d, s_messageCount = mc\<rparr>)))))"

text \<open>The body of the \<^verbatim>\<open>try\<close> for one file of the directory.\<close>

definition read_summary :: "parser \<Rightarrow> string \<Rightarrow> filesystem \<Rightarrow> string \<Rightarrow> js_error + summary" where
  "read_summary JSON_parse home fs file =
     and_then (readFileSync fs (join (CHECKPOINTS_DIR home) file)) (\<lambda>content.
     and_then (JSON_parse content) summary_of)"



text \<open>The loop: a file whose body throws is skipped.\<close>

fun collect :: "parser \<Rightarrow> string \<Rightarrow> filesystem \<Rightarrow> string list \<Rightarrow> summary list" where
  "collect JSON_parse home fs [] = []"
| "collect JSON_parse home fs (file # files) =
     (case read_summary JSON_parse home fs file of
        Inl e \<Rightarrow> collect JSON_parse home fs files
      | Inr s \<Rightarrow> s # collect JSON_parse home fs files)"

text \<open>
  \<^verbatim>\<open>new Date(x).getTime()\<close> is the parameter \<open>getTime\<close>: the time value in
  milliseconds, \<open>None\<close> for \<^verbatim>\<open>NaN\<close> (an invalid date). The comparison function is
  \<^verbatim>\<open>(a, b) => getTime(b.timestamp) - getTime(a.timestamp)\<close>; a difference with
  \<^verbatim>\<open>NaN\<close> is \<^verbatim>\<open>NaN\<close>, which \<^verbatim>\<open>sort\<close> reads as 0.
\<close>

type_synonym clock = "json option \<Rightarrow> int option"

definition compare_newest_first :: "clock \<Rightarrow> summary \<Rightarrow> summary \<Rightarrow> int" where
  "compare_newest_first getTime a b =
     (case (getTime (s_timestamp b), getTime (s_timestamp a)) of
        (Some tb, Some ta) \<Rightarrow> tb - ta
      | _ \<Rightarrow> 0)"



text \<open>
  \<^verbatim>\<open>Array.prototype.sort\<close> is stable: under a consistent comparison function its
  result is the one arrangement in which \<open>x\<close> comes before \<open>y\<close> whenever
  \<open>compare x y < 0\<close>, and elements that compare 0 keep their order. Insertion from the
  right computes it. (For an inconsistent comparison function, which here takes an
  invalid date, the language leaves the order to the implementation; a comparison that
  is \<^verbatim>\<open>NaN\<close> moves nothing, in the insertion as in the insertion sorts and run
  detection of the implementations.)
\<close>

fun sort_insert :: "('a \<Rightarrow> 'a \<Rightarrow> int) \<Rightarrow> 'a \<Rightarrow> 'a list \<Rightarrow> 'a list" where
  "sort_insert compare x [] = [x]"
| "sort_insert compare x (y # ys) =
     (if compare x y \<le> 0 then x # y # ys else y # sort_insert compare x ys)"

definition js_sort :: "('a \<Rightarrow> 'a \<Rightarrow> int) \<Rightarrow> 'a list \<Rightarrow> 'a list" where
  "js_sort compare xs = foldr (sort_insert compare) xs []"

text \<open>\<^verbatim>\<open>f.endsWith(".json")\<close>\<close>

definition endsWith :: "string \<Rightarrow> string \<Rightarrow> bool" where
  "endsWith s e \<longleftrightarrow> suffix e s"

text \<open>
  \<^verbatim>\<open>listCheckpoints\<close>: \<open>entries\<close> is what \<^verbatim>\<open>readdirSync(CHECKPOINTS_DIR)\<close>
  returns, the names in the directory in the order the file system enumerates them.
  (Where the path is a file and not a directory, \<^verbatim>\<open>readdirSync\<close> throws and there
  is no listing to start from.)
\<close>

definition listCheckpoints ::
  "parser \<Rightarrow> clock \<Rightarrow> string \<Rightarrow> string list \<Rightarrow> filesystem \<Rightarrow> summary list \<times> filesystem" where
  "listCheckpoints JSON_parse getTime home entries fs =
     (let fs' = ensureCheckpointsDir home fs;
          files = filter (\<lambda>f. endsWith f ''.json'') entries;
          checkpoints = collect JSON_parse home fs' files
      in (js_sort (compare_newest_first getTime) checkpoints, fs'))"

text \<open>\<^verbatim>\<open>rmSync(path)\<close> throws on a directory.\<close>

definition deleteCheckpoint ::
  "string \<Rightarrow> filesystem \<Rightarrow> string \<Rightarrow> js_error + (bool \<times> filesystem)" where
  "deleteCheckpoint home fs ident =
     (let path = getCheckpointPath home ident in
      if \<not> existsSync fs path then Inr (False, fs)
      else if fs path = Some Directory then Inl IOError
      else Inr (True, fs(path := None)))"

subsection \<open>Saving\<close>

record stats =
  messageCount :: nat
  userMessages :: nat
  assistantMessages :: nat
  toolCalls :: nat

record Checkpoint =
  ident :: string
  description :: "string option"
  cwd :: string
  timestamp :: string
  serializedContext :: string
  stats :: stats

text \<open>What \<^verbatim>\<open>JSON.stringify\<close> is given: a property that is \<^verbatim>\<open>undefined\<close> is left out.\<close>

definition checkpoint_json :: "Checkpoint \<Rightarrow> json" where
  "checkpoint_json c =
     JObject ([(''id'', JString (ident c))]
       @ (case description c of None \<Rightarrow> [] | Some d \<Rightarrow> [(''description'', JString d)])
       @ [(''cwd'', JString (cwd c)),
          (''timestamp'', JString (timestamp c)),
          (''serializedContext'', JString (serializedContext c)),
          (''stats'', JObject
             [(''messageCount'', JNumber (of_nat (messageCount (stats c)))),
              (''userMessages'', JNumber (of_nat (userMessages (stats c)))),
              (''assistantMessages'', JNumber (of_nat (assistantMessages (stats c)))),
              (''toolCalls'', JNumber (of_nat (toolCalls (stats c))))])])"

definition saveCheckpoint ::
  "(json \<Rightarrow> string) \<Rightarrow> string \<Rightarrow> Checkpoint \<Rightarrow> filesystem \<Rightarrow> js_error + filesystem" where
  "saveCheckpoint JSON_stringify home checkpoint fs =
     writeFileSync (ensureCheckpointsDir home fs) (getCheckpointPath home (ident checkpoint))
       (JSON_stringify (checkpoint_json checkpoint))"

text \<open>
  Messages of the session. A content block is its \<^verbatim>\<open>type\<close> tag and, for a text
  block, its text. The content of a message is a string or an array of blocks.
\<close>

datatype block = Block (block_type: string) (block_text: string)

datatype content = StringContent string | ArrayContent "block list"

record message =
  role :: string
  content :: content

text \<open>
  An entry of the session log: \<open>MessageEntry\<close> is an entry of type \<^verbatim>\<open>"message"\<close>,
  \<open>OtherEntry\<close> one of any other type.
\<close>

datatype session_entry = MessageEntry message | OtherEntry string

fun message_entries :: "session_entry list \<Rightarrow> message list" where
  "message_entries [] = []"
| "message_entries (MessageEntry m # es) = m # message_entries es"
| "message_entries (OtherEntry t # es) = message_entries es"

datatype level = Info | Warning | Error

datatype ui_effect = Notify string level

text \<open>The statistics loop of the \<^verbatim>\<open>save\<close> case.\<close>

definition count_toolCalls :: "message \<Rightarrow> nat" where
  "count_toolCalls msg =
     (case content msg of
        ArrayContent blocks \<Rightarrow> length (filter (\<lambda>b. block_type b = ''toolCall'') blocks)
      | StringContent s \<Rightarrow> 0)"

fun compute_stats :: "message list \<Rightarrow> nat \<times> nat \<times> nat \<Rightarrow> nat \<times> nat \<times> nat" where
  "compute_stats [] acc = acc"
| "compute_stats (msg # msgs) (u, a, t) =
     compute_stats msgs
       (if role msg = ''user'' then u + 1 else u,
        if role msg = ''assistant'' then a + 1 else a,
        if role msg = ''assistant'' then t + count_toolCalls msg else t)"

text \<open>
  The \<^verbatim>\<open>save\<close> case of the \<^verbatim>\<open>/checkpoint\<close> command. \<open>rest\<close> is the text after
  the subcommand, \<open>branch\<close> is \<^verbatim>\<open>ctx.sessionManager.getBranch()\<close>, \<open>serialize\<close> is
  \<^verbatim>\<open>serializeConversation(convertToLlm(messages))\<close> of the host, \<open>now\<close> is
  \<^verbatim>\<open>new Date().toISOString()\<close>. The result is the store and the notifications, or
  the exception of a failed write.
\<close>

definition checkpoint_save ::
  "(json \<Rightarrow> string) \<Rightarrow> (message list \<Rightarrow> string) \<Rightarrow> (nat \<Rightarrow> rat) \<Rightarrow> string \<Rightarrow> string \<Rightarrow>
     string \<Rightarrow> string \<Rightarrow> session_entry list \<Rightarrow> filesystem \<Rightarrow>
     js_error + (filesystem \<times> ui_effect list)" where
  "checkpoint_save JSON_stringify serialize random now home rest ctx_cwd branch fs =
     (let checkpointId = generateShortId random;
          descr = (if rest = [] then None else Some rest);
          messageEntries = message_entries branch
      in if length messageEntries = 0
         then Inr (fs, [Notify ''No messages to checkpoint'' Warning])
         else
           let messages = messageEntries;
               serialized = serialize messages;
               (u, a, t) = compute_stats messages (0, 0, 0);
               checkpoint = \<lparr>ident = checkpointId, description = descr, cwd = ctx_cwd,
                             timestamp = now, serializedContext = serialized,
                             stats = \<lparr>messageCount = length messageEntries, userMessages = u,
                                      assistantMessages = a, toolCalls = t\<rparr>\<rparr>
           in and_then (saveCheckpoint JSON_stringify home checkpoint fs) (\<lambda>fs'.
                Inr (fs', [Notify (''Checkpoint \"'' @ checkpointId @ ''\" saved ('' @
                                   decimal (length messageEntries) @ '' messages, '' @
                                   decimal t @ '' tool calls)'') Info])))"

subsection \<open>A directory of checkpoints\<close>

text \<open>
  Two checkpoint files as \<^verbatim>\<open>saveCheckpoint\<close> writes them (shortened to the properties
  \<^verbatim>\<open>listCheckpoints\<close> reads), a file that is not JSON and a file of another kind;
  what \<^verbatim>\<open>JSON.parse\<close> returns on the three texts, and the time values of the two
  time stamps.
\<close>

definition older_text :: string where
  "older_text = ''{\"id\":\"abc234\",\"timestamp\":\"2024-01-01T00:00:00.000Z\",\"stats\":{\"messageCount\":3}}''"

definition newer_text :: string where
  "newer_text = ''{\"id\":\"xyz789\",\"timestamp\":\"2024-01-02T00:00:00.000Z\",\"stats\":{\"messageCount\":5}}''"

definition older_summary :: summary where
  "older_summary = \<lparr>s_id = Some (JString ''abc234''),
     s_timestamp = Some (JString ''2024-01-01T00:00:00.000Z''),
     s_description = None, s_messageCount = Some (JNumber 3)\<rparr>"

definition newer_summary :: summary where
  "newer_summary = \<lparr>s_id = Some (JString ''xyz789''),
     s_timestamp = Some (JString ''2024-01-02T00:00:00.000Z''),
     s_description = None, s_messageCount = Some (JNumber 5)\<rparr>"

definition example_checkpoint_parser :: parser where
  "example_checkpoint_parser c =
     (if c = older_text then
        Inr (JObject [(''id'', JString ''abc234''), (''timestamp'', JString ''2024-01-01T00:00:00.000Z''),
                      (''stats'', JObject [(''messageCount'', JNumber 3)])])
      else if c = newer_text then
        Inr (JObject [(''id'', JString ''xyz789''), (''timestamp'', JString ''2024-01-02T00:00:00.000Z''),
                      (''stats'', JObject [(''messageCount'', JNumber 5)])])
      else Inl SyntaxError)"

definition example_clock :: clock where
  "example_clock v =
     (if v = Some (JString ''2024-01-01T00:00:00.000Z'') then Some 1704067200000
      else if v = Some (JString ''2024-01-02T00:00:00.000Z'') then Some 1704153600000
      else None)"

definition example_store :: filesystem where
  "example_store =
     [''/home/u/.pi/agent/checkpoints'' \<mapsto> Directory,
      ''/home/u/.pi/agent/checkpoints/abc234.json'' \<mapsto> File older_text,
      ''/home/u/.pi/agent/checkpoints/broken.json'' \<mapsto> File ''not valid json'',
      ''/home/u/.pi/agent/checkpoints/xyz789.json'' \<mapsto> File newer_text,
      ''/home/u/.pi/agent/checkpoints/notes.txt'' \<mapsto> File older_text]"





section \<open>Iteration loop (examples/extensions/ralph-wiggum.ts)\<close>

subsection \<open>State\<close>

text \<open>
  \<^verbatim>\<open>RalphState\<close>; the module's variable \<^verbatim>\<open>state\<close> is a \<open>RalphState option\<close>,
  \<open>None\<close> for \<^verbatim>\<open>null\<close>. Counters are integers.
\<close>

record RalphState =
  active :: bool
  prompt :: string
  iteration :: int
  totalIterations :: int
  maxIterations :: int
  completionPromise :: "string option"
  planFile :: "string option"
  contextThreshold :: int
  startedAt :: int
  sessionCount :: int
  pendingHandoff :: bool

text \<open>
  A string or \<^verbatim>\<open>null\<close> used as a condition: \<^verbatim>\<open>null\<close> and the empty string are
  falsy.
\<close>

definition truthy :: "string option \<Rightarrow> bool" where
  "truthy v = (case v of None \<Rightarrow> False | Some s \<Rightarrow> s \<noteq> [])"

subsection \<open>The last assistant message and its text\<close>

definition isAssistantMessage :: "message \<Rightarrow> bool" where
  "isAssistantMessage m \<longleftrightarrow>
     role m = ''assistant'' \<and> (case content m of ArrayContent blocks \<Rightarrow> True | StringContent s \<Rightarrow> False)"

text \<open>\<^verbatim>\<open>[...event.messages].reverse().find(isAssistantMessage)\<close>\<close>

definition lastAssistant :: "message list \<Rightarrow> message option" where
  "lastAssistant messages = find isAssistantMessage (rev messages)"

text \<open>\<^verbatim>\<open>strings.join("\n")\<close>\<close>

fun join_lines :: "string list \<Rightarrow> string" where
  "join_lines [] = []"
| "join_lines [s] = s"
| "join_lines (s # t # ss) = s @ [CHR 0x0A] @ join_lines (t # ss)"

definition extractTextContent :: "message \<Rightarrow> string" where
  "extractTextContent m =
     (case content m of
        ArrayContent blocks \<Rightarrow>
          join_lines (map block_text (filter (\<lambda>b. block_type b = ''text'') blocks))
      | StringContent s \<Rightarrow> [])"

subsection \<open>The promise marker\<close>

text \<open>
  \<^verbatim>\<open>text.match(/<promise>\s*(.*?)\s*<\/promise>/s)\<close>, by the backtracking rules of the
  language: the match starts at the leftmost position where one exists; a greedy
  \<^verbatim>\<open>\s*\<close> tries the longest run of white space first and then shorter ones; the lazy
  \<^verbatim>\<open>(.*?)\<close> tries the shortest capture first and then longer ones; under the flag
  \<^verbatim>\<open>s\<close> the dot matches every character.
\<close>

definition open_tag :: string where
  "open_tag = ''<promise>''"

definition close_tag :: string where
  "close_tag = ''</promise>''"

definition starts_with :: "string \<Rightarrow> string \<Rightarrow> bool" where
  "starts_with s p \<longleftrightarrow> take (length p) s = p"

text \<open>The numbers of white space characters a greedy \<^verbatim>\<open>\s*\<close> tries at the start of \<open>r\<close>, in order.\<close>

definition greedy_space :: "string \<Rightarrow> nat list" where
  "greedy_space r = rev [0..<Suc (length (takeWhile isWhiteSpace r))]"

text \<open>\<^verbatim>\<open>\s*<\/promise>\<close> at the start of \<open>r\<close>\<close>

definition match_close :: "string \<Rightarrow> bool" where
  "match_close r \<longleftrightarrow> list_ex (\<lambda>n. starts_with (drop n r) close_tag) (greedy_space r)"

text \<open>\<^verbatim>\<open>(.*?)\s*<\/promise>\<close> at the start of \<open>r\<close>, the capture so far being \<open>captured\<close>\<close>

fun match_lazy :: "string \<Rightarrow> string \<Rightarrow> string option" where
  "match_lazy captured [] = (if match_close [] then Some captured else None)"
| "match_lazy captured (c # r) =
     (if match_close (c # r) then Some captured else match_lazy (captured @ [c]) r)"

fun first_some :: "'a option list \<Rightarrow> 'a option" where
  "first_some [] = None"
| "first_some (Some x # _) = Some x"
| "first_some (None # xs) = first_some xs"

text \<open>The whole expression at the start of \<open>s\<close>: the capture group of the match, if there is one.\<close>

definition match_here :: "string \<Rightarrow> string option" where
  "match_here s =
     (if starts_with s open_tag
      then let r = drop (length open_tag) s
           in first_some (map (\<lambda>n. match_lazy [] (drop n r)) (greedy_space r))
      else None)"

fun regex_match :: "string \<Rightarrow> string option" where
  "regex_match [] = match_here []"
| "regex_match (c # s) =
     (case match_here (c # s) of Some g \<Rightarrow> Some g | None \<Rightarrow> regex_match s)"

text \<open>\<^verbatim>\<open>return match ? match[1].trim() : null\<close>\<close>

definition extractPromiseText :: "string \<Rightarrow> string option" where
  "extractPromiseText text_in =
     (case regex_match text_in of Some g \<Rightarrow> Some (trim g) | None \<Rightarrow> None)"

text \<open>\<open>p\<close> occurs in \<open>s\<close> at position \<open>n\<close> and at no position before it.\<close>

definition first_at :: "string \<Rightarrow> string \<Rightarrow> nat \<Rightarrow> bool" where
  "first_at p s n \<longleftrightarrow> starts_with (drop n s) p \<and> \<not> list_ex (\<lambda>i. starts_with (drop i s) p) [0..<n]"

subsection \<open>Context usage\<close>

text \<open>
  What the handlers read of the extension context: the context window of
  \<^verbatim>\<open>ctx.model\<close> (\<open>None\<close> when no model is set); what the host's
  \<^verbatim>\<open>calculateContextTokens\<close> makes of the host's \<^verbatim>\<open>getLastAssistantUsage\<close> of the
  session entries (\<open>None\<close> when there is no usage); and \<^verbatim>\<open>Date.now()\<close>.
\<close>

record ExtensionContext =
  model_contextWindow :: "int option"
  usage_contextTokens :: "int option"
  date_now :: int

text \<open>
  The numbers the percentage can be: an integer, or what a division by zero leaves
  (\<^verbatim>\<open>Math.round\<close> returns an infinity and \<^verbatim>\<open>NaN\<close> as they are).
  \<^verbatim>\<open>Math.round((contextTokens / contextWindow) * 100)\<close>: the quotient and the product
  are binary64 operations.
\<close>

datatype js_number = Num int | PosInfinity | NegInfinity | NaN

definition percent_of :: "int \<Rightarrow> int \<Rightarrow> js_number" where
  "percent_of contextTokens contextWindow =
     (if contextWindow = 0
      then (if contextTokens = 0 then NaN
            else if 0 < contextTokens then PosInfinity else NegInfinity)
      else Num (Math_round
                  (to_double (to_double (of_int contextTokens / of_int contextWindow) * 100))))"

definition getContextUsagePercent :: "ExtensionContext \<Rightarrow> js_number option" where
  "getContextUsagePercent ctx =
     (case model_contextWindow ctx of
        None \<Rightarrow> None
      | Some contextWindow \<Rightarrow>
          (case usage_contextTokens ctx of
             None \<Rightarrow> None
           | Some contextTokens \<Rightarrow> Some (percent_of contextTokens contextWindow)))"

text \<open>\<^verbatim>\<open>contextPercent >= state.contextThreshold\<close>\<close>

definition js_ge :: "js_number \<Rightarrow> int \<Rightarrow> bool" where
  "js_ge x t =
     (case x of Num n \<Rightarrow> n \<ge> t | PosInfinity \<Rightarrow> True | NegInfinity \<Rightarrow> False | NaN \<Rightarrow> False)"

subsection \<open>Effects\<close>

text \<open>
  The calls a handler makes on the host, in order. A notification, a status line and a
  custom message are recorded by which text of the program they are and by the values
  the text is built from, not by the text itself.
\<close>

datatype notice =
    HandoffAdvice
  | MaxIterationsReached int int int
  | LoopComplete string int int int
  | ContextHigh js_number
  | Usage
  | AlreadyActive int
  | ParseError string
  | NoPrompt
  | Activated int "string option" "string option" int
  | NoActiveLoop
  | Cancelled int int int
  | CreatingSession
  | HandoffCancelled
  | Continuing int
  | Resumed int int int
  | HandoffPending

datatype custom_message =
    ContextWarning js_number int string
  | IterationMarker int int "string option"
  | HandoffContinue int int "string option"
  | LoopContext int int int "string option" "string option" bool

datatype status_line = StatusLine int int int "js_number option"

datatype effect =
    UiNotify notice level
  | SetStatus "status_line option"
  | AppendEntry "RalphState option"
  | SendMessage custom_message
  | SendUserMessage string
  | UiConfirm "js_number option"
  | NewSession

text \<open>\<^verbatim>\<open>Math.round((Date.now() - state.startedAt) / 1000)\<close>\<close>

definition elapsed :: "ExtensionContext \<Rightarrow> RalphState \<Rightarrow> int" where
  "elapsed ctx st = Math_round (to_double (of_int (date_now ctx - startedAt st) / 1000))"

text \<open>\<^verbatim>\<open>updateStatus(ctx)\<close>\<close>

definition updateStatus :: "ExtensionContext \<Rightarrow> RalphState option \<Rightarrow> effect" where
  "updateStatus ctx state =
     (case state of
        None \<Rightarrow> SetStatus None
      | Some st \<Rightarrow>
          if active st
          then SetStatus (Some (StatusLine (totalIterations st) (maxIterations st) (sessionCount st)
                                  (getContextUsagePercent ctx)))
          else SetStatus None)"

subsection \<open>The handler of \<^verbatim>\<open>agent_end\<close>\<close>

text \<open>Whether the last assistant message of the turn carries the configured promise.\<close>

definition promise_detected :: "message list \<Rightarrow> RalphState \<Rightarrow> bool" where
  "promise_detected messages st =
     (if truthy (completionPromise st)
      then (case lastAssistant messages of
              None \<Rightarrow> False
            | Some m \<Rightarrow> extractPromiseText (extractTextContent m) = completionPromise st)
      else False)"

definition update_request :: "string \<Rightarrow> string" where
  "update_request file = ''Update '' @ file @ '' with current progress before session handoff.''"

definition agent_end ::
  "message list \<Rightarrow> ExtensionContext \<Rightarrow> RalphState option \<Rightarrow> RalphState option \<times> effect list" where
  "agent_end messages ctx state =
     (case state of
        None \<Rightarrow> (state, [])
      | Some st \<Rightarrow>
          if \<not> active st then (state, [])
          else if pendingHandoff st then (state, [UiNotify HandoffAdvice Info])
          else if maxIterations st > 0 \<and> totalIterations st \<ge> maxIterations st then
            (None,
             [UiNotify (MaxIterationsReached (maxIterations st) (sessionCount st) (elapsed ctx st)) Info,
              AppendEntry None,
              updateStatus ctx None])
          else if promise_detected messages st then
            (None,
             [UiNotify (LoopComplete (the (completionPromise st)) (totalIterations st)
                          (sessionCount st) (elapsed ctx st)) Info,
              AppendEntry None,
              updateStatus ctx None])
          else
            let contextPercent = getContextUsagePercent ctx;
                over = (case contextPercent of
                          None \<Rightarrow> False
                        | Some p \<Rightarrow> js_ge p (contextThreshold st))
            in if over \<and> truthy (planFile st) then
                 let st1 = st\<lparr>pendingHandoff := True\<rparr> in
                 (Some st1,
                  [AppendEntry (Some st1),
                   SendMessage (ContextWarning (the contextPercent) (contextThreshold st)
                                  (the (planFile st))),
                   SendUserMessage (update_request (the (planFile st)))])
               else
                 let st2 = st\<lparr>iteration := iteration st + 1,
                              totalIterations := totalIterations st + 1\<rparr> in
                 (Some st2,
                  (if over then [UiNotify (ContextHigh (the contextPercent)) Warning] else [])
                  @ [AppendEntry (Some st2),
                     updateStatus ctx (Some st2),
                     SendMessage (IterationMarker (totalIterations st2) (maxIterations st2)
                                    (completionPromise st2)),
                     SendUserMessage (prompt st2)]))"

subsection \<open>Starting the loop\<close>

text \<open>What \<^verbatim>\<open>parseArgs\<close> returns.\<close>

record ParsedArgs =
  parsed_prompt :: string
  parsed_maxIterations :: int
  parsed_completionPromise :: "string option"
  parsed_planFile :: "string option"
  parsed_contextThreshold :: int
  parsed_error :: "string option"

text \<open>\<^verbatim>\<open>args.includes(needle)\<close>\<close>

definition string_includes :: "string \<Rightarrow> string \<Rightarrow> bool" where
  "string_includes s needle \<longleftrightarrow> list_ex (\<lambda>i. starts_with (drop i s) needle) [0..<Suc (length s)]"

text \<open>
  The handler of \<^verbatim>\<open>/ralph\<close>; \<open>parsed\<close> is \<^verbatim>\<open>parseArgs(args)\<close>.
\<close>

definition ralph_command ::
  "string \<Rightarrow> ParsedArgs \<Rightarrow> ExtensionContext \<Rightarrow> RalphState option \<Rightarrow> RalphState option \<times> effect list" where
  "ralph_command args parsed ctx state =
     (if trim args = [] \<or> string_includes args ''--help'' \<or> string_includes args ''-h'' then
        (state, [UiNotify Usage Info])
      else if (case state of None \<Rightarrow> False | Some st \<Rightarrow> active st) then
        (state, [UiNotify (AlreadyActive (totalIterations (the state))) Warning])
      else if truthy (parsed_error parsed) then
        (state, [UiNotify (ParseError (the (parsed_error parsed))) Error])
      else if parsed_prompt parsed = [] then
        (state, [UiNotify NoPrompt Error])
      else
        let st = \<lparr>active = True,
                  prompt = parsed_prompt parsed,
                  iteration = 1,
                  totalIterations = 1,
                  maxIterations = parsed_maxIterations parsed,
                  completionPromise = parsed_completionPromise parsed,
                  planFile = parsed_planFile parsed,
                  contextThreshold = parsed_contextThreshold parsed,
                  startedAt = date_now ctx,
                  sessionCount = 1,
                  pendingHandoff = False\<rparr>
        in (Some st,
            [AppendEntry (Some st),
             updateStatus ctx (Some st),
             UiNotify (Activated (parsed_maxIterations parsed) (parsed_completionPromise parsed)
                         (parsed_planFile parsed) (parsed_contextThreshold parsed)) Info,
             SendUserMessage (parsed_prompt parsed)]))"

subsection \<open>The other handlers\<close>

text \<open>The handler of \<^verbatim>\<open>/cancel-ralph\<close>.\<close>

definition cancel_ralph :: "ExtensionContext \<Rightarrow> RalphState option \<Rightarrow> RalphState option \<times> effect list" where
  "cancel_ralph ctx state =
     (case state of
        None \<Rightarrow> (state, [UiNotify NoActiveLoop Info])
      | Some st \<Rightarrow>
          if \<not> active st then (state, [UiNotify NoActiveLoop Info])
          else (None,
                [AppendEntry None,
                 updateStatus ctx None,
                 UiNotify (Cancelled (totalIterations st) (sessionCount st) (elapsed ctx st)) Info]))"

text \<open>
  \<^verbatim>\<open>performHandoff\<close>: \<open>cancelled\<close> is the answer of \<^verbatim>\<open>ctx.newSession\<close>, and
  \<open>ctx_new\<close> is the context as it reads once the new session exists.
\<close>

definition performHandoff ::
  "ExtensionContext \<Rightarrow> bool \<Rightarrow> RalphState option \<Rightarrow> RalphState option \<times> effect list" where
  "performHandoff ctx_new cancelled state =
     (case state of
        None \<Rightarrow> (state, [])
      | Some st \<Rightarrow>
          if cancelled then
            (Some (st\<lparr>pendingHandoff := False\<rparr>),
             [UiNotify CreatingSession Info, NewSession, UiNotify HandoffCancelled Warning])
          else
            let st1 = st\<lparr>sessionCount := sessionCount st + 1, iteration := 0,
                         pendingHandoff := False\<rparr>;
                st2 = st1\<lparr>iteration := iteration st1 + 1,
                          totalIterations := totalIterations st1 + 1\<rparr>
            in (Some st2,
                [UiNotify CreatingSession Info,
                 NewSession,
                 AppendEntry (Some st1),
                 updateStatus ctx_new (Some st1),
                 UiNotify (Continuing (sessionCount st1)) Info,
                 AppendEntry (Some st2),
                 SendMessage (HandoffContinue (sessionCount st2) (totalIterations st2)
                                (if truthy (planFile st2) then planFile st2 else None)),
                 SendUserMessage (prompt st2)]))"

text \<open>
  The handler of \<^verbatim>\<open>/ralph-handoff\<close>: \<open>confirm\<close> is the answer of
  \<^verbatim>\<open>ctx.ui.confirm\<close>, asked only when no handoff is pending.
\<close>

definition ralph_handoff ::
  "ExtensionContext \<Rightarrow> ExtensionContext \<Rightarrow> bool \<Rightarrow> bool \<Rightarrow> RalphState option \<Rightarrow>
     RalphState option \<times> effect list" where
  "ralph_handoff ctx ctx_new confirm cancelled state =
     (case state of
        None \<Rightarrow> (state, [UiNotify NoActiveLoop Info])
      | Some st \<Rightarrow>
          if \<not> active st then (state, [UiNotify NoActiveLoop Info])
          else if \<not> pendingHandoff st \<and> \<not> confirm then
            (state, [UiConfirm (getContextUsagePercent ctx)])
          else
            let asked = (if \<not> pendingHandoff st then [UiConfirm (getContextUsagePercent ctx)]
                         else []);
                (state', effects) = performHandoff ctx_new cancelled
                                      (Some (st\<lparr>pendingHandoff := True\<rparr>))
            in (state', asked @ effects))"

text \<open>
  The handler of \<^verbatim>\<open>before_agent_start\<close>: the message it returns, if any; the state
  is not changed.
\<close>

definition before_agent_start :: "RalphState option \<Rightarrow> custom_message option" where
  "before_agent_start state =
     (case state of
        None \<Rightarrow> None
      | Some st \<Rightarrow>
          if \<not> active st then None
          else Some (LoopContext (totalIterations st) (maxIterations st) (sessionCount st)
                       (if truthy (planFile st) then planFile st else None)
                       (if truthy (completionPromise st) then completionPromise st else None)
                       (pendingHandoff st)))"

text \<open>
  The handler of \<^verbatim>\<open>session_start\<close>: \<open>saved\<close> is the data of the entries of custom
  type \<^verbatim>\<open>ralph-state\<close> in the session log, in order.
\<close>

definition session_start ::
  "RalphState option list \<Rightarrow> ExtensionContext \<Rightarrow> RalphState option \<Rightarrow>
     RalphState option \<times> effect list" where
  "session_start saved ctx state =
     (let state' = foldl (\<lambda>s d. d) state saved in
      (state',
       [updateStatus ctx state'] @
       (case state' of
          None \<Rightarrow> []
        | Some st \<Rightarrow>
            if \<not> active st then []
            else [UiNotify (Resumed (totalIterations st) (maxIterations st) (sessionCount st)) Info]
                 @ (if pendingHandoff st then [UiNotify HandoffPending Warning] else []))))"

subsection \<open>Runs\<close>

text \<open>
  What happens to a loop once it is started: turns that end, \<^verbatim>\<open>/ralph-handoff\<close>
  commands and \<^verbatim>\<open>/cancel-ralph\<close> commands. A run handles a sequence of events; its
  effects are those of all events in order.
\<close>

datatype event =
    AgentEnd "message list" ExtensionContext
  | HandoffCommand ExtensionContext ExtensionContext bool bool
  | CancelCommand ExtensionContext

fun handle :: "event \<Rightarrow> RalphState option \<Rightarrow> RalphState option \<times> effect list" where
  "handle (AgentEnd messages ctx) state = agent_end messages ctx state"
| "handle (HandoffCommand ctx ctx_new confirm cancelled) state =
     ralph_handoff ctx ctx_new confirm cancelled state"
| "handle (CancelCommand ctx) state = cancel_ralph ctx state"

fun run :: "event list \<Rightarrow> RalphState option \<Rightarrow> RalphState option \<times> effect list" where
  "run [] state = (state, [])"
| "run (e # es) state =
     (let (state1, effects1) = handle e state;
          (state2, effects2) = run es state1
      in (state2, effects1 @ effects2))"

text \<open>
  The events of a loop left to itself: the user neither cancels it nor forces a handoff
  that is not pending.
\<close>

fun automatic :: "event \<Rightarrow> bool" where
  "automatic (AgentEnd messages ctx) = True"
| "automatic (HandoffCommand ctx ctx_new confirm cancelled) = (\<not> confirm)"
| "automatic (CancelCommand ctx) = False"

definition sends_user_message :: "effect list \<Rightarrow> bool" where
  "sends_user_message effects = list_ex (\<lambda>e. case e of SendUserMessage p \<Rightarrow> True | _ \<Rightarrow> False) effects"

text \<open>
  What holds of the state all through a loop started with \<^verbatim>\<open>--max-iterations 3\<close>,
  no completion promise and the prompt \<open>p\<close>, as long as it is left to itself.
\<close>

definition loop_inv :: "string \<Rightarrow> RalphState option \<Rightarrow> bool" where
  "loop_inv p s = (case s of None \<Rightarrow> True
     | Some st \<Rightarrow> active st \<and> maxIterations st = 3 \<and> 1 \<le> totalIterations st \<and> totalIterations st \<le> 3
         \<and> (if pendingHandoff st then totalIterations st < 3 else True)
         \<and> completionPromise st = None \<and> prompt st = p)"

text \<open>A string without its trailing white space.\<close>

definition rstrip :: "string \<Rightarrow> string" where
  "rstrip u = rev (dropWhile isWhiteSpace (rev u))"

subsection \<open>A loop in progress\<close>

text \<open>
  An assistant message of one text block; a loop started with the promise \<open>DONE\<close> and
  no limit; the same loop with a plan file; a context at 25 per cent of its window and
  one at 75 per cent.
\<close>

definition assistant_says :: "string \<Rightarrow> message" where
  "assistant_says s = \<lparr>role = ''assistant'', content = ArrayContent [Block ''text'' s]\<rparr>"

definition example_state :: RalphState where
  "example_state = \<lparr>active = True, prompt = ''build the API'', iteration = 1, totalIterations = 1,
     maxIterations = 0, completionPromise = Some ''DONE'', planFile = None, contextThreshold = 70,
     startedAt = 0, sessionCount = 1, pendingHandoff = False\<rparr>"

definition example_state_with_plan :: RalphState where
  "example_state_with_plan = example_state\<lparr>planFile := Some ''PLAN.md''\<rparr>"

definition quiet_context :: ExtensionContext where
  "quiet_context = \<lparr>model_contextWindow = Some 200000, usage_contextTokens = Some 50000,
     date_now = 60000\<rparr>"

definition full_context :: ExtensionContext where
  "full_context = \<lparr>model_contextWindow = Some 200000, usage_contextTokens = Some 150000,
     date_now = 60000\<rparr>"

definition overfull_context :: ExtensionContext where
  "overfull_context = \<lparr>model_contextWindow = Some 200000, usage_contextTokens = Some 500000,
     date_now = 60000\<rparr>"

definition unknown_context :: ExtensionContext where
  "unknown_context = \<lparr>model_contextWindow = Some 200000, usage_contextTokens = None,
     date_now = 60000\<rparr>"

text \<open>A context whose exact percentage, 14.5, lies half way between two integers.\<close>

definition tie_context :: ExtensionContext where
  "tie_context = \<lparr>model_contextWindow = Some 200000, usage_contextTokens = Some 29000,
     date_now = 60000\<rparr>"

definition example_parsed :: ParsedArgs where
  "example_parsed = \<lparr>parsed_prompt = ''build the API'', parsed_maxIterations = 3,
     parsed_completionPromise = None, parsed_planFile = None, parsed_contextThreshold = 70,
     parsed_error = None\<rparr>"

definition example_start :: RalphState where
  "example_start = \<lparr>active = True, prompt = ''build the API'', iteration = 1, totalIterations = 1,
     maxIterations = 3, completionPromise = None, planFile = None, contextThreshold = 70,
     startedAt = 60000, sessionCount = 1, pendingHandoff = False\<rparr>"

section \<open>Properties of the input history\<close>

lemma trim_id:
  assumes "s \<noteq> []" "\<not> isWhiteSpace (hd s)" "\<not> isWhiteSpace (last s)"
  shows "trim s = s"
proof -
  from assms(1,2) have a: "dropWhile isWhiteSpace s = s"
    by (cases s) auto
  from assms(1,3) have b: "dropWhile isWhiteSpace (rev s) = rev s"
    by (cases "rev s") (auto simp: hd_rev)
  show ?thesis by (simp add: trim_def a b)
qed

lemma digit_not_space: "d < 10 \<Longrightarrow> \<not> isWhiteSpace (digit_char d)"
proof -
  assume "d < 10"
  then have "d \<in> {0,1,2,3,4,5,6,7,8,9}" by auto
  then show ?thesis by (auto simp: digit_char_def isWhiteSpace_def)
qed

lemma digit_cases: "d < 10 \<Longrightarrow> d \<in> {0,1,2,3,4,5,6,7,8,9::nat}"
  by auto


lemma decimal_last: "decimal n \<noteq> [] \<and> last (decimal n) = digit_char (n mod 10)"
proof (cases "n < 10")
  case True
  then show ?thesis by (subst (1 2) decimal.simps) simp
next
  case False
  then show ?thesis by (subst (1 2) decimal.simps) simp
qed

lemma digit_value: "d < 10 \<Longrightarrow> (of_char (digit_char d) :: nat) = 48 + d"
  using digit_cases[of d] by (auto simp: digit_char_def)

lemma decimal_value_decimal: "decimal_value (decimal n) = n"
proof (induction n rule: decimal.induct)
  case (1 n)
  show ?case
  proof (cases "n < 10")
    case True
    then show ?thesis by (subst decimal.simps) (simp add: digit_value)
  next
    case False
    with 1 have "decimal_value (decimal (n div 10)) = n div 10" by simp
    with False show ?thesis by (subst decimal.simps) (simp add: digit_value)
  qed
qed

lemma inj_decimal: "decimal a = decimal b \<Longrightarrow> a = b"
  by (metis decimal_value_decimal)

lemma trim_entry: "trim (entry i) = entry i"
proof (rule trim_id)
  show "entry i \<noteq> []" by (simp add: entry_def)
  show "\<not> isWhiteSpace (hd (entry i))" by (simp add: entry_def isWhiteSpace_def)
  have "last (entry i) = digit_char (i mod 10)"
    using decimal_last[of i] by (simp add: entry_def)
  then show "\<not> isWhiteSpace (last (entry i))"
    by (simp add: digit_not_space)
qed

lemma inj_entry: "inj entry"
  by (rule injI) (simp add: entry_def inj_decimal)

lemma history_add:
  "history (fst (add str t (m, fs))) = add_reference t (history m)"
  by (cases "history m") (simp_all add: add_def add_reference_def Let_def MAX_HISTORY_SIZE_def)

lemma history_add_all:
  assumes "history m = []" and "distinct (map trim ts)" and "[] \<notin> set (map trim ts)"
  shows "history (fst (add_all str ts (m, fs))) = take 150 (rev (map trim ts))"
  using assms(2,3)
proof (induction ts rule: rev_induct)
  case Nil
  then show ?case by (simp add: add_all_def assms(1))
next
  case (snoc t ts)
  obtain m' fs' where s: "add_all str ts (m, fs) = (m', fs')"
    by (cases "add_all str ts (m, fs)")
  from snoc have h: "history m' = take 150 (rev (map trim ts))"
    by (simp add: s)
  have "add_all str (ts @ [t]) (m, fs) = add str t (m', fs')"
    using s by (simp add: add_all_def)
  then have step: "history (fst (add_all str (ts @ [t]) (m, fs))) = add_reference t (history m')"
    by (simp add: history_add)
  from snoc.prems have ne: "trim t \<noteq> []" and new: "trim t \<notin> set (map trim ts)"
    by auto
  have "\<not> (case history m' of [] \<Rightarrow> False | newest # _ \<Rightarrow> newest = trim t)"
  proof (cases "history m'")
    case Nil
    then show ?thesis by simp
  next
    case (Cons u us)
    then have "u \<in> set (take 150 (rev (map trim ts)))"
      using h by (metis list.set_intros(1))
    then have "u \<in> set (map trim ts)"
      by (metis in_set_takeD set_rev)
    with new have "u \<noteq> trim t" by blast
    with Cons show ?thesis by simp
  qed
  with ne have "add_reference t (history m') = take 150 (trim t # history m')"
    by (simp add: add_reference_def)
  also have "\<dots> = take 150 (rev (map trim (ts @ [t])))"
    by (simp add: h take_Cons split: nat.splits)
  finally show ?case using step by simp
qed

lemma history_inMemory: "history (inMemory p fs) = []"
  by (simp add: inMemory_def new_InputHistoryManager_def load_def)

lemma entries_ok:
  "distinct (map trim (map entry [0..<n])) \<and> [] \<notin> set (map trim (map entry [0..<n]))"
proof -
  have eq: "map trim (map entry [0..<n]) = map entry [0..<n]"
    by (simp add: trim_entry)
  have d: "distinct (map entry [0..<n])"
    by (simp add: distinct_map inj_entry inj_on_def injD[OF inj_entry])
  have ne: "[] \<notin> set (map entry [0..<n])"
    by (auto simp: entry_def)
  show ?thesis unfolding eq using d ne by blast
qed

text \<open>
  Claim C5 (as amended). \<^verbatim>\<open>add(text)\<close> behaves as the reference definition: it
  trims the text; if the trimmed text is empty or equal to the current most-recent entry
  the buffer is unchanged; otherwise the trimmed text is prepended and the buffer
  truncated to 150 entries, the oldest dropped. Adding "hello" twice yields length 1;
  adding "hello", "world", "hello" yields [hello, world, hello]; adding 200 texts whose
  trimmed forms are non-empty and pairwise different to an empty buffer yields length
  150, entry 0 the 200th added and entry 149 the 51st added (index 50 of the sequence).
\<close>

theorem add_behaves_as_reference:
  "history (fst (add str t (m, fs))) = add_reference t (history m)
   \<and> length_of (fst (add_all str [''hello'', ''hello''] (inMemory p fs, fs))) = 1
   \<and> getAll (fst (add_all str [''hello'', ''world'', ''hello''] (inMemory p fs, fs)))
         = [''hello'', ''world'', ''hello'']
   \<and> (length ts = 200 \<and> distinct (map trim ts) \<and> [] \<notin> set (map trim ts) \<longrightarrow>
        length_of (fst (add_all str ts (inMemory p fs, fs))) = 150
        \<and> get (fst (add_all str ts (inMemory p fs, fs))) 0 = Some (trim (ts ! 199))
        \<and> get (fst (add_all str ts (inMemory p fs, fs))) 149 = Some (trim (ts ! 50)))"
proof -
  have hello: "trim ''hello'' = ''hello''" and world: "trim ''world'' = ''world''"
    by (simp_all add: trim_def isWhiteSpace_def)
  have two: "history (fst (add_all str [''hello'', ''hello''] (inMemory p fs, fs))) = [''hello'']"
    by (simp add: add_all_def add_def Let_def hello history_inMemory MAX_HISTORY_SIZE_def)
  have three: "history (fst (add_all str [''hello'', ''world'', ''hello''] (inMemory p fs, fs)))
                 = [''hello'', ''world'', ''hello'']"
    by (simp add: add_all_def add_def Let_def hello world history_inMemory MAX_HISTORY_SIZE_def)
  have many: "length_of (fst (add_all str ts (inMemory p fs, fs))) = 150
        \<and> get (fst (add_all str ts (inMemory p fs, fs))) 0 = Some (trim (ts ! 199))
        \<and> get (fst (add_all str ts (inMemory p fs, fs))) 149 = Some (trim (ts ! 50))"
    if len: "length ts = 200" and d: "distinct (map trim ts)" and ne: "[] \<notin> set (map trim ts)"
  proof -
    have h: "history (fst (add_all str ts (inMemory p fs, fs))) = take 150 (rev (map trim ts))"
      by (rule history_add_all[OF history_inMemory d ne])
    have a: "take 150 (rev (map trim ts)) ! 0 = trim (ts ! 199)"
      using len by (simp add: rev_nth)
    have b: "take 150 (rev (map trim ts)) ! 149 = trim (ts ! 50)"
      using len by (simp add: rev_nth)
    show ?thesis using len a b by (simp add: length_of_def get_def h)
  qed
  show ?thesis
    using two three many by (simp add: history_add length_of_def getAll_def)
qed

text \<open>The theorem at the 200 entries of the repository's test, \<open>entry-0\<close> to \<open>entry-199\<close>.\<close>

theorem add_behaves_as_reference_witness:
  "length (map entry [0..<200]) = 200
   \<and> length_of (fst (add_all (\<lambda>j. []) (map entry [0..<200])
        (inMemory (\<lambda>c. Inl SyntaxError) Map.empty, Map.empty))) = 150
   \<and> get (fst (add_all (\<lambda>j. []) (map entry [0..<200])
        (inMemory (\<lambda>c. Inl SyntaxError) Map.empty, Map.empty))) 0 = Some ''entry-199''
   \<and> get (fst (add_all (\<lambda>j. []) (map entry [0..<200])
        (inMemory (\<lambda>c. Inl SyntaxError) Map.empty, Map.empty))) 149 = Some ''entry-50''"
proof -
  let ?ts = "map entry [0..<200]"
  have e199: "entry 199 = ''entry-199''" and e50: "entry 50 = ''entry-50''"
    by (simp_all add: entry_def decimal.simps digit_char_def)
  have t199: "trim (?ts ! 199) = ''entry-199''" and t50: "trim (?ts ! 50) = ''entry-50''"
    using trim_entry[of 199] trim_entry[of 50] by (simp_all add: e199 e50 del: upt_Suc)
  have pre: "length ?ts = 200 \<and> distinct (map trim ?ts) \<and> [] \<notin> set (map trim ?ts)"
    using entries_ok[of 200] by simp
  from add_behaves_as_reference[where str = "\<lambda>j. []" and fs = Map.empty
        and p = "\<lambda>c. Inl SyntaxError" and ts = ?ts] pre
  have "length_of (fst (add_all (\<lambda>j. []) ?ts
          (inMemory (\<lambda>c. Inl SyntaxError) Map.empty, Map.empty))) = 150
     \<and> get (fst (add_all (\<lambda>j. []) ?ts
          (inMemory (\<lambda>c. Inl SyntaxError) Map.empty, Map.empty))) 0 = Some (trim (?ts ! 199))
     \<and> get (fst (add_all (\<lambda>j. []) ?ts
          (inMemory (\<lambda>c. Inl SyntaxError) Map.empty, Map.empty))) 149 = Some (trim (?ts ! 50))"
    by blast
  then show ?thesis unfolding t199 t50 by simp
qed

text \<open>
  Claim C5 as stated has entry 149 be the 50th text added. After the 200 entries of the
  test, entry 149 is \<open>entry-50\<close>, the 51st added, and not \<open>entry-49\<close>, the 50th.
\<close>

theorem fiftieth_added_counterexample:
  "\<not> (get (fst (add_all (\<lambda>j. []) (map entry [0..<200])
        (inMemory (\<lambda>c. Inl SyntaxError) Map.empty, Map.empty))) 149 = Some (map entry [0..<200] ! 49))"
proof -
  have h: "history (fst (add_all (\<lambda>j. []) (map entry [0..<200])
        (inMemory (\<lambda>c. Inl SyntaxError) Map.empty, Map.empty))) = take 150 (rev (map trim (map entry [0..<200])))"
    using entries_ok[of 200] by (intro history_add_all history_inMemory) simp_all
  have n: "map entry [0..<200] ! 49 = entry 49" 
    by (simp del: upt_Suc)
  have "take 150 (rev (map trim (map entry [0..<200]))) ! 149 = trim (map entry [0..<200] ! 50)"
    by (simp add: rev_nth del: upt_Suc)
  also have "\<dots> = entry 50" by (simp add: trim_entry del: upt_Suc)
  finally have "get (fst (add_all (\<lambda>j. []) (map entry [0..<200])
        (inMemory (\<lambda>c. Inl SyntaxError) Map.empty, Map.empty))) 149 = Some (entry 50)"
    by (simp add: get_def h del: upt_Suc)
  moreover have "entry 50 \<noteq> entry 49"
    using injD[OF inj_entry, of 50 49] by auto
  ultimately show ?thesis by (simp add: n)
qed

lemma filter_strings_typeof: "map JString (filter_strings items) = filter typeof_string items"
  by (induction items rule: filter_strings.induct) (simp_all add: typeof_string_def)

text \<open>
  Claim C6. File-backed construction loads the JSON array from disk keeping only the
  string-typed elements, in their original order (the first 150 of them, all of them
  when there are at most 150), and starts with an empty buffer when the file is missing,
  cannot be read, holds text that does not parse, or holds JSON that is not an array.
  A file holding ["valid", 123, null, "also valid", {}] yields exactly
  ["valid", "also valid"].
\<close>

theorem create_loads_string_entries:
  "(\<not> existsSync fs (join dir ''input-history.json'') \<longrightarrow> history (create p fs dir) = [])
   \<and> (fs (join dir ''input-history.json'') = Some Directory \<longrightarrow> history (create p fs dir) = [])
   \<and> (fs (join dir ''input-history.json'') = Some (File c) \<and> p c = Inl e \<longrightarrow>
        history (create p fs dir) = [])
   \<and> (fs (join dir ''input-history.json'') = Some (File c) \<and> p c = Inr v \<and> \<not> Array_isArray v \<longrightarrow>
        history (create p fs dir) = [])
   \<and> (fs (join dir ''input-history.json'') = Some (File c) \<and> p c = Inr (JArray items) \<longrightarrow>
        history (create p fs dir) = take 150 (filter_strings items)
        \<and> map JString (filter_strings items) = filter typeof_string items
        \<and> (length (filter typeof_string items) \<le> 150 \<longrightarrow>
             map JString (history (create p fs dir)) = filter typeof_string items))
   \<and> (fs (join dir ''input-history.json'') = Some (File c)
        \<and> p c = Inr (JArray [JString ''valid'', JNumber 123, JNull, JString ''also valid'', JObject []]) \<longrightarrow>
        getAll (create p fs dir) = [''valid'', ''also valid''])"
proof -
  let ?path = "join dir ''input-history.json''"
  have missing: "history (create p fs dir) = []" if "\<not> existsSync fs ?path"
    using that by (simp add: create_def new_InputHistoryManager_def load_def)
  have unreadable: "history (create p fs dir) = []" if "fs ?path = Some Directory"
    using that by (simp add: create_def new_InputHistoryManager_def load_def existsSync_def readFileSync_def)
  have corrupted: "history (create p fs dir) = []" if "fs ?path = Some (File c)" "p c = Inl e"
    using that by (simp add: create_def new_InputHistoryManager_def load_def existsSync_def readFileSync_def)
  have non_array: "history (create p fs dir) = []"
    if "fs ?path = Some (File c)" "p c = Inr v" "\<not> Array_isArray v"
    using that
    by (cases v) (simp_all add: create_def new_InputHistoryManager_def load_def existsSync_def
        readFileSync_def Array_isArray_def)
  have array: "history (create p fs dir) = take 150 (filter_strings xs)"
    if "fs ?path = Some (File c)" "p c = Inr (JArray xs)" for xs
    using that
    by (simp add: create_def new_InputHistoryManager_def load_def existsSync_def
        readFileSync_def MAX_HISTORY_SIZE_def)
  have all_kept: "map JString (history (create p fs dir)) = filter typeof_string items"
    if "fs ?path = Some (File c)" "p c = Inr (JArray items)" "length (filter typeof_string items) \<le> 150"
  proof -
    have "length (filter_strings items) \<le> 150"
      using that(3) by (metis filter_strings_typeof length_map)
    then show ?thesis
      using array[OF that(1,2)] by (simp add: filter_strings_typeof)
  qed
  have example: "getAll (create p fs dir) = [''valid'', ''also valid'']"
    if "fs ?path = Some (File c)"
       "p c = Inr (JArray [JString ''valid'', JNumber 123, JNull, JString ''also valid'', JObject []])"
    using array[OF that] by (simp add: getAll_def)
  show ?thesis
    using missing unreadable corrupted non_array array all_kept example filter_strings_typeof
    by blast
qed

text \<open>The theorem at the files of the repository's tests.\<close>

theorem create_loads_string_entries_witness:
  "getAll (create example_parser
      [''agent/input-history.json'' \<mapsto> File ''[\"valid\", 123, null, \"also valid\", {}]''] ''agent'')
     = [''valid'', ''also valid'']
   \<and> history (create example_parser Map.empty ''agent'') = []
   \<and> history (create example_parser [''agent/input-history.json'' \<mapsto> File ''not valid json''] ''agent'') = []
   \<and> history (create example_parser [''agent/input-history.json'' \<mapsto> File ''{\"foo\": \"bar\"}''] ''agent'') = []"
proof -
  have j: "join ''agent'' ''input-history.json'' = ''agent/input-history.json''"
    by (simp add: join_def)
  have a: "getAll (create example_parser
      [''agent/input-history.json'' \<mapsto> File ''[\"valid\", 123, null, \"also valid\", {}]''] ''agent'')
     = [''valid'', ''also valid'']"
    using create_loads_string_entries[where p = example_parser and dir = "''agent''"
        and fs = "[''agent/input-history.json'' \<mapsto> File ''[\"valid\", 123, null, \"also valid\", {}]'']"
        and c = "''[\"valid\", 123, null, \"also valid\", {}]''"]
    by (simp add: j example_parser_def)
  have b: "history (create example_parser Map.empty ''agent'') = []"
    using create_loads_string_entries[where p = example_parser and dir = "''agent''" and fs = Map.empty]
    by (simp add: existsSync_def)
  have c: "history (create example_parser [''agent/input-history.json'' \<mapsto> File ''not valid json''] ''agent'') = []"
    using create_loads_string_entries[where p = example_parser and dir = "''agent''"
        and fs = "[''agent/input-history.json'' \<mapsto> File ''not valid json'']"
        and c = "''not valid json''" and e = SyntaxError]
    by (simp add: j example_parser_def)
  have d: "history (create example_parser [''agent/input-history.json'' \<mapsto> File ''{\"foo\": \"bar\"}''] ''agent'') = []"
    using create_loads_string_entries[where p = example_parser and dir = "''agent''"
        and fs = "[''agent/input-history.json'' \<mapsto> File ''{\"foo\": \"bar\"}'']"
        and c = "''{\"foo\": \"bar\"}''" and v = "JObject [(''foo'', JString ''bar'')]"]
    by (simp add: j example_parser_def Array_isArray_def)
  show ?thesis using a b c d by blast
qed

section \<open>Properties of the checkpoint store\<close>

text \<open>
  Claim C7. For every id, \<^verbatim>\<open>loadCheckpoint(id)\<close> returns \<^verbatim>\<open>null\<close> (not found) when
  the checkpoint file does not exist, and also when the file exists but holds malformed
  JSON; it never raises an exception.
\<close>

theorem loadCheckpoint_not_found:
  "(\<not> existsSync fs (getCheckpointPath home i) \<longrightarrow> loadCheckpoint p home fs i = Inr JNull)
   \<and> (fs (getCheckpointPath home i) = Some (File c) \<and> p c = Inl e \<longrightarrow>
        loadCheckpoint p home fs i = Inr JNull)
   \<and> (\<exists>v. loadCheckpoint p home fs i = Inr v)"
proof -
  have missing: "loadCheckpoint p home fs i = Inr JNull"
    if "\<not> existsSync fs (getCheckpointPath home i)"
    using that by (simp add: loadCheckpoint_def)
  have malformed: "loadCheckpoint p home fs i = Inr JNull"
    if "fs (getCheckpointPath home i) = Some (File c)" "p c = Inl e"
    using that
    by (simp add: loadCheckpoint_def existsSync_def readFileSync_def and_then_def try_catch_def)
  have total: "\<exists>v. loadCheckpoint p home fs i = Inr v"
    by (simp add: loadCheckpoint_def Let_def try_catch_def split: sum.splits)
  show ?thesis using missing malformed total by blast
qed

text \<open>The theorem at a store without the file and at a store whose file is not JSON.\<close>

theorem loadCheckpoint_not_found_witness:
  "loadCheckpoint example_parser ''/home/u'' Map.empty ''abc234'' = Inr JNull
   \<and> loadCheckpoint example_parser ''/home/u''
        [''/home/u/.pi/agent/checkpoints/abc234.json'' \<mapsto> File ''not valid json''] ''abc234'' = Inr JNull"
proof -
  have path: "getCheckpointPath ''/home/u'' ''abc234'' = ''/home/u/.pi/agent/checkpoints/abc234.json''"
    by (simp add: getCheckpointPath_def CHECKPOINTS_DIR_def join_def safe_char_def in_range_def)
  have a: "loadCheckpoint example_parser ''/home/u'' Map.empty ''abc234'' = Inr JNull"
    using loadCheckpoint_not_found[where fs = Map.empty and home = "''/home/u''" and i = "''abc234''"
        and p = example_parser]
    by (simp add: existsSync_def)
  have b: "loadCheckpoint example_parser ''/home/u''
        [''/home/u/.pi/agent/checkpoints/abc234.json'' \<mapsto> File ''not valid json''] ''abc234'' = Inr JNull"
    using loadCheckpoint_not_found[where
        fs = "[''/home/u/.pi/agent/checkpoints/abc234.json'' \<mapsto> File ''not valid json'']"
        and home = "''/home/u''" and i = "''abc234''" and p = example_parser
        and c = "''not valid json''" and e = SyntaxError]
    by (simp add: path example_parser_def)
  show ?thesis using a b by blast
qed

lemma message_entries_empty: "message_entries branch = [] \<longleftrightarrow> (\<forall>m. MessageEntry m \<notin> set branch)"
  by (induction branch rule: message_entries.induct) auto

text \<open>
  Claim C8. When \<^verbatim>\<open>/checkpoint save\<close> runs and the current branch has no message
  entry, no file is written (the store is unchanged) and the only effect is the warning
  \<open>No messages to checkpoint\<close>. With a message entry on the branch, a save that
  succeeds leaves a file at the checkpoint's path and shows no warning.
\<close>

theorem save_without_messages:
  "((\<forall>m. MessageEntry m \<notin> set branch) \<longrightarrow>
      checkpoint_save str ser rnd now home rest dir branch fs
        = Inr (fs, [Notify ''No messages to checkpoint'' Warning]))
   \<and> (MessageEntry m \<in> set branch \<and>
        checkpoint_save str ser rnd now home rest dir branch fs = Inr (fs', effects) \<longrightarrow>
        (\<exists>text_out. fs' (getCheckpointPath home (generateShortId rnd)) = Some (File text_out))
        \<and> (\<forall>t. Notify t Warning \<notin> set effects))"
proof -
  have none: "checkpoint_save str ser rnd now home rest dir branch fs
        = Inr (fs, [Notify ''No messages to checkpoint'' Warning])"
    if "\<forall>m. MessageEntry m \<notin> set branch"
  proof -
    from that have "message_entries branch = []" by (simp add: message_entries_empty)
    then show ?thesis by (simp add: checkpoint_save_def)
  qed
  have some: "(\<exists>text_out. fs' (getCheckpointPath home (generateShortId rnd)) = Some (File text_out))
        \<and> (\<forall>t. Notify t Warning \<notin> set effects)"
    if "MessageEntry m \<in> set branch"
       "checkpoint_save str ser rnd now home rest dir branch fs = Inr (fs', effects)"
  proof -
    from that(1) have "message_entries branch \<noteq> []"
      using message_entries_empty by blast
    with that(2) show ?thesis
      by (auto simp: checkpoint_save_def Let_def and_then_def saveCheckpoint_def writeFileSync_def
          split: prod.splits sum.splits option.splits node.splits)
  qed
  show ?thesis using none some by blast
qed

lemma gen0: "generateShortId (\<lambda>k. 0) = ''aaaaaa''"
  by (simp add: generateShortId_def ID_CHARS_def upt_rec to_double_def)

lemma path0: "getCheckpointPath ''/home/u'' ''aaaaaa'' = ''/home/u/.pi/agent/checkpoints/aaaaaa.json''"
  by (simp add: getCheckpointPath_def CHECKPOINTS_DIR_def join_def safe_char_def in_range_def)

text \<open>The theorem at a branch of two entries that are not messages, and at a branch with one message.\<close>

theorem save_without_messages_witness:
  "checkpoint_save (\<lambda>j. ''{}'') (\<lambda>ms. []) (\<lambda>k. 0) ''2024-01-01T00:00:00.000Z'' ''/home/u''
       ''my description'' ''/work'' [OtherEntry ''custom'', OtherEntry ''compaction'']
       [''/home/u/.pi/agent/checkpoints/abc234.json'' \<mapsto> File ''x'']
     = Inr ([''/home/u/.pi/agent/checkpoints/abc234.json'' \<mapsto> File ''x''],
            [Notify ''No messages to checkpoint'' Warning])
   \<and> (\<exists>text_out.
         [''/home/u/.pi/agent/checkpoints'' \<mapsto> Directory,
          ''/home/u/.pi/agent/checkpoints/aaaaaa.json'' \<mapsto> File ''{}'']
           (getCheckpointPath ''/home/u'' (generateShortId (\<lambda>k. 0))) = Some (File text_out))"
proof -
  have saved: "checkpoint_save (\<lambda>j. ''{}'') (\<lambda>ms. []) (\<lambda>k. 0) ''2024-01-01T00:00:00.000Z'' ''/home/u''
       ''my description'' ''/work''
       [OtherEntry ''custom'', MessageEntry \<lparr>role = ''user'', content = StringContent ''hi''\<rparr>]
       Map.empty
     = Inr ([''/home/u/.pi/agent/checkpoints'' \<mapsto> Directory,
             ''/home/u/.pi/agent/checkpoints/aaaaaa.json'' \<mapsto> File ''{}''],
            [Notify ''Checkpoint \"aaaaaa\" saved (1 messages, 0 tool calls)'' Info])"
    by (simp add: checkpoint_save_def gen0 path0 saveCheckpoint_def ensureCheckpointsDir_def
        existsSync_def writeFileSync_def mkdirSync_def dirname_def and_then_def CHECKPOINTS_DIR_def
        join_def decimal.simps digit_char_def)
  have a: "checkpoint_save (\<lambda>j. ''{}'') (\<lambda>ms. []) (\<lambda>k. 0) ''2024-01-01T00:00:00.000Z'' ''/home/u''
       ''my description'' ''/work'' [OtherEntry ''custom'', OtherEntry ''compaction'']
       [''/home/u/.pi/agent/checkpoints/abc234.json'' \<mapsto> File ''x'']
     = Inr ([''/home/u/.pi/agent/checkpoints/abc234.json'' \<mapsto> File ''x''],
            [Notify ''No messages to checkpoint'' Warning])"
    using save_without_messages[where branch = "[OtherEntry ''custom'', OtherEntry ''compaction'']"
        and str = "\<lambda>j. ''{}''" and ser = "\<lambda>ms. []" and rnd = "\<lambda>k. 0"
        and now = "''2024-01-01T00:00:00.000Z''" and home = "''/home/u''"
        and rest = "''my description''" and dir = "''/work''"
        and fs = "[''/home/u/.pi/agent/checkpoints/abc234.json'' \<mapsto> File ''x'']"]
    by simp
  have b: "\<exists>text_out.
         [''/home/u/.pi/agent/checkpoints'' \<mapsto> Directory,
          ''/home/u/.pi/agent/checkpoints/aaaaaa.json'' \<mapsto> File ''{}'']
           (getCheckpointPath ''/home/u'' (generateShortId (\<lambda>k. 0))) = Some (File text_out)"
    using save_without_messages[where
        branch = "[OtherEntry ''custom'', MessageEntry \<lparr>role = ''user'', content = StringContent ''hi''\<rparr>]"
        and m = "\<lparr>role = ''user'', content = StringContent ''hi''\<rparr>"
        and str = "\<lambda>j. ''{}''" and ser = "\<lambda>ms. []" and rnd = "\<lambda>k. 0"
        and now = "''2024-01-01T00:00:00.000Z''" and home = "''/home/u''"
        and rest = "''my description''" and dir = "''/work''" and fs = Map.empty
        and fs' = "[''/home/u/.pi/agent/checkpoints'' \<mapsto> Directory,
                    ''/home/u/.pi/agent/checkpoints/aaaaaa.json'' \<mapsto> File ''{}'']"
        and effects = "[Notify ''Checkpoint \"aaaaaa\" saved (1 messages, 0 tool calls)'' Info]"]
      saved
    by simp
  show ?thesis using a b by blast
qed

















lemma list_value2:
  "fst (listCheckpoints example_checkpoint_parser example_clock ''/home/u''
          [''xyz789.json'', ''notes.txt'', ''abc234.json'', ''broken.json''] example_store)
     = [newer_summary, older_summary]"
  by (simp add: listCheckpoints_def ensureCheckpointsDir_def existsSync_def example_store_def
      CHECKPOINTS_DIR_def join_def endsWith_def suffix_def read_summary_def readFileSync_def and_then_def
      example_checkpoint_parser_def older_text_def newer_text_def summary_of_def get_prop_def
      js_sort_def compare_newest_first_def example_clock_def newer_summary_def older_summary_def)



section \<open>Properties of the iteration loop\<close>

lemma first_at_iff:
  "first_at p s n \<longleftrightarrow> starts_with (drop n s) p \<and> (\<forall>i<n. \<not> starts_with (drop i s) p)"
  by (auto simp: first_at_def list_ex_iff)

lemma starts_with_hd:
  assumes "starts_with r (c # p)"
  shows "r \<noteq> [] \<and> hd r = c"
  using assms by (cases r) (simp_all add: starts_with_def)

lemma close_tag_Cons: "\<exists>t. close_tag = CHR ''<'' # t"
  by (simp add: close_tag_def)

lemma open_tag_Cons: "\<exists>t. open_tag = CHR ''<'' # t"
  by (simp add: open_tag_def)

lemma starts_with_close_hd:
  assumes "starts_with r close_tag"
  shows "r \<noteq> [] \<and> hd r = CHR ''<''"
proof -
  obtain t where t: "close_tag = CHR ''<'' # t" using close_tag_Cons by blast
  show ?thesis using assms unfolding t by (rule starts_with_hd)
qed

lemma trim_Nil: "trim [] = []"
  by (simp add: trim_def)

lemma not_space_lt: "\<not> isWhiteSpace CHR ''<''"
  by (simp add: isWhiteSpace_def)

lemma match_close_iff:
  "match_close r \<longleftrightarrow> starts_with (dropWhile isWhiteSpace r) close_tag"
proof
  assume "match_close r"
  then have "\<exists>n\<in>set (greedy_space r). starts_with (drop n r) close_tag"
    by (simp only: match_close_def list_ex_iff)
  then obtain n where n': "n \<in> set (greedy_space r)"
      and s: "starts_with (drop n r) close_tag"
    by blast
  from n' have n: "n \<le> length (takeWhile isWhiteSpace r)"
    by (auto simp: greedy_space_def)
  have "n = length (takeWhile isWhiteSpace r)"
  proof (rule ccontr)
    assume "n \<noteq> length (takeWhile isWhiteSpace r)"
    with n have lt: "n < length (takeWhile isWhiteSpace r)" by simp
    then have "isWhiteSpace (takeWhile isWhiteSpace r ! n)"
      by (metis nth_mem set_takeWhileD)
    then have ws: "isWhiteSpace (r ! n)"
      using lt by (simp add: takeWhile_nth)
    have "n < length r" using lt length_takeWhile_le[of isWhiteSpace r] by simp
    then have "hd (drop n r) = r ! n" by (simp add: hd_drop_conv_nth)
    with ws starts_with_close_hd[OF s] not_space_lt show False by simp
  qed
  with s show "starts_with (dropWhile isWhiteSpace r) close_tag"
    by (simp add: dropWhile_eq_drop)
next
  assume "starts_with (dropWhile isWhiteSpace r) close_tag"
  then have "starts_with (drop (length (takeWhile isWhiteSpace r)) r) close_tag"
    by (simp add: dropWhile_eq_drop)
  then show "match_close r"
    by (auto simp: match_close_def greedy_space_def list_ex_iff)
qed

lemma starts_with_append: "starts_with (p @ s) p"
  by (simp add: starts_with_def)

lemma dropWhile_close: "dropWhile isWhiteSpace (close_tag @ post) = close_tag @ post"
proof -
  obtain t where t: "close_tag = CHR ''<'' # t" using close_tag_Cons by blast
  show ?thesis unfolding t by (simp add: not_space_lt)
qed

lemma dropWhile_before_close:
  "dropWhile isWhiteSpace (u @ close_tag @ post) = dropWhile isWhiteSpace u @ close_tag @ post"
proof (cases "\<forall>x\<in>set u. isWhiteSpace x")
  case True
  then have "dropWhile isWhiteSpace (u @ close_tag @ post) = dropWhile isWhiteSpace (close_tag @ post)"
    by (intro dropWhile_append2) blast
  moreover from True have "dropWhile isWhiteSpace u = []" by simp
  ultimately show ?thesis by (simp only: dropWhile_close append_Nil)
next
  case False
  then obtain x where "x \<in> set u" "\<not> isWhiteSpace x" by blast
  then show ?thesis by (rule dropWhile_append1)
qed

lemma match_close_before:
  assumes "first_at close_tag (u @ close_tag @ post) (length u)"
  shows "match_close (u @ close_tag @ post) \<longleftrightarrow> (\<forall>c\<in>set u. isWhiteSpace c)"
proof
  assume all: "\<forall>c\<in>set u. isWhiteSpace c"
  then have e: "dropWhile isWhiteSpace u = []" by simp
  show "match_close (u @ close_tag @ post)"
    unfolding match_close_iff dropWhile_before_close e
    by (simp add: starts_with_def)
next
  assume m: "match_close (u @ close_tag @ post)"
  show "\<forall>c\<in>set u. isWhiteSpace c"
  proof (rule ccontr)
    assume "\<not> (\<forall>c\<in>set u. isWhiteSpace c)"
    then have "dropWhile isWhiteSpace u \<noteq> []" by simp
    moreover have "length (takeWhile isWhiteSpace u) + length (dropWhile isWhiteSpace u) = length u"
      by (metis length_append takeWhile_dropWhile_id)
    ultimately have lt: "length (takeWhile isWhiteSpace u) < length u"
      by (cases "dropWhile isWhiteSpace u") simp_all
    let ?r = "u @ close_tag @ post"
    obtain x where "x \<in> set u" "\<not> isWhiteSpace x"
      using \<open>\<not> (\<forall>c\<in>set u. isWhiteSpace c)\<close> by blast
    then have tw: "takeWhile isWhiteSpace ?r = takeWhile isWhiteSpace u"
      by (rule takeWhile_append1)
    from m have "starts_with (drop (length (takeWhile isWhiteSpace ?r)) ?r) close_tag"
      unfolding match_close_iff by (simp only: dropWhile_eq_drop)
    then have "starts_with (drop (length (takeWhile isWhiteSpace u)) ?r) close_tag"
      by (simp only: tw)
    with assms lt show False by (auto simp: first_at_iff)
  qed
qed

lemma first_at_tail:
  assumes "first_at p (c # s) (Suc n)"
  shows "first_at p s n"
  using assms by (auto simp: first_at_iff)

lemma rstrip_Cons:
  "\<not> (\<forall>x\<in>set (c # u). isWhiteSpace x) \<Longrightarrow> rstrip (c # u) = c # rstrip u"
  by (auto simp: rstrip_def dropWhile_append)

lemma rstrip_all_space: "\<forall>x\<in>set u. isWhiteSpace x \<Longrightarrow> rstrip u = []"
  by (simp add: rstrip_def)

lemma match_lazy_capture:
  assumes "first_at close_tag (u @ close_tag @ post) (length u)"
  shows "match_lazy captured (u @ close_tag @ post) = Some (captured @ rstrip u)"
  using assms
proof (induction u arbitrary: captured)
  case Nil
  obtain t where t: "close_tag = CHR ''<'' # t" using close_tag_Cons by blast
  have "match_close (close_tag @ post)"
    using match_close_before[of "[]" post] Nil by simp
  then show ?case by (simp add: rstrip_def t)
next
  case (Cons c u)
  have tail: "first_at close_tag (u @ close_tag @ post) (length u)"
    using Cons.prems first_at_tail[of "close_tag" c "u @ close_tag @ post" "length u"] by simp
  show ?case
  proof (cases "\<forall>x\<in>set (c # u). isWhiteSpace x")
    case True
    then have "match_close ((c # u) @ close_tag @ post)"
      using match_close_before[OF Cons.prems] by blast
    then show ?thesis using True by (simp add: rstrip_all_space)
  next
    case False
    then have "\<not> match_close ((c # u) @ close_tag @ post)"
      using match_close_before[OF Cons.prems] by blast
    then have "match_lazy captured ((c # u) @ close_tag @ post)
                = match_lazy (captured @ [c]) (u @ close_tag @ post)"
      by simp
    also have "\<dots> = Some ((captured @ [c]) @ rstrip u)"
      by (rule Cons.IH[OF tail])
    finally show ?thesis using rstrip_Cons[OF False] by simp
  qed
qed

lemma first_at_drop_space:
  assumes "first_at close_tag (w @ close_tag @ post) (length w)"
  shows "first_at close_tag (dropWhile isWhiteSpace w @ close_tag @ post)
           (length (dropWhile isWhiteSpace w))"
  using assms
proof (induction w)
  case Nil
  then show ?case by simp
next
  case (Cons c w)
  show ?case
  proof (cases "isWhiteSpace c")
    case True
    have "first_at close_tag (w @ close_tag @ post) (length w)"
      using Cons.prems first_at_tail[of "close_tag" c "w @ close_tag @ post" "length w"] by simp
    then show ?thesis using True Cons.IH by simp
  next
    case False
    then show ?thesis using Cons.prems by simp
  qed
qed

lemma trim_rstrip: "trim w = rstrip (dropWhile isWhiteSpace w)"
  by (simp add: trim_def rstrip_def)

lemma greedy_space_Cons:
  "greedy_space r = length (takeWhile isWhiteSpace r) # rev [0..<length (takeWhile isWhiteSpace r)]"
  by (simp add: greedy_space_def)

lemma match_here_marker:
  assumes "first_at close_tag (w @ close_tag @ post) (length w)"
  shows "match_here (open_tag @ w @ close_tag @ post) = Some (trim w)"
proof -
  let ?r = "w @ close_tag @ post"
  have "match_lazy [] (drop (length (takeWhile isWhiteSpace ?r)) ?r)
          = match_lazy [] (dropWhile isWhiteSpace w @ close_tag @ post)"
    by (simp only: dropWhile_eq_drop[symmetric] dropWhile_before_close)
  also have "\<dots> = Some (trim w)"
    using match_lazy_capture[OF first_at_drop_space[OF assms], of "[]"] by (simp add: trim_rstrip)
  finally have "first_some (map (\<lambda>n. match_lazy [] (drop n ?r)) (greedy_space ?r)) = Some (trim w)"
    by (simp add: greedy_space_Cons del: upt_Suc)
  moreover have "starts_with (open_tag @ ?r) open_tag"
    by (rule starts_with_append)
  moreover have "drop (length open_tag) (open_tag @ ?r) = ?r"
    by simp
  ultimately show ?thesis
    unfolding match_here_def Let_def by (simp only: if_True)
qed

lemma match_here_None: "\<not> starts_with s open_tag \<Longrightarrow> match_here s = None"
  by (simp add: match_here_def)

lemma regex_match_skip:
  assumes "first_at open_tag (pre @ s) (length pre)" "match_here s = Some g"
  shows "regex_match (pre @ s) = Some g"
  using assms
proof (induction pre)
  case Nil
  then show ?case by (cases s) simp_all
next
  case (Cons c pre)
  have "\<not> starts_with (c # pre @ s) open_tag"
    using Cons.prems(1) by (auto simp: first_at_iff)
  then have "match_here (c # pre @ s) = None" by (rule match_here_None)
  moreover have "first_at open_tag (pre @ s) (length pre)"
    using Cons.prems(1) first_at_tail[of "open_tag" c "pre @ s" "length pre"] by simp
  ultimately show ?case using Cons by simp
qed

lemma trim_trim: "trim (trim s) = trim s"
proof (cases "trim s = []")
  case True
  then show ?thesis by (simp only: trim_Nil)
next
  case False
  let ?a = "dropWhile isWhiteSpace s"
  let ?b = "dropWhile isWhiteSpace (rev ?a)"
  from False have b: "?b \<noteq> []" by (simp add: trim_def)
  have a: "?a \<noteq> []"
  proof
    assume "?a = []"
    then have "?b = []" by (simp only: rev.simps dropWhile.simps)
    with b show False by simp
  qed
  have last: "\<not> isWhiteSpace (last (trim s))"
    using b hd_dropWhile[of isWhiteSpace "rev ?a"] by (simp add: trim_def last_rev)
  have "rev ?a = takeWhile isWhiteSpace (rev ?a) @ ?b" by simp
  then have "?a = rev ?b @ rev (takeWhile isWhiteSpace (rev ?a))"
    by (metis rev_append rev_rev_ident)
  then have "hd ?a = hd (rev ?b)" using b by (metis hd_append2 rev_is_Nil_conv)
  moreover have "\<not> isWhiteSpace (hd ?a)" using a hd_dropWhile by blast
  ultimately have hd: "\<not> isWhiteSpace (hd (trim s))" by (simp add: trim_def)
  from False hd last show ?thesis
    by (intro trim_id)
qed

lemma extractPromiseText_first_marker:
  assumes "first_at open_tag (pre @ open_tag @ w @ close_tag @ post) (length pre)"
    and "first_at close_tag (w @ close_tag @ post) (length w)"
  shows "extractPromiseText (pre @ open_tag @ w @ close_tag @ post) = Some (trim w)"
  using regex_match_skip[OF assms(1) match_here_marker[OF assms(2)]]
  by (simp add: extractPromiseText_def trim_trim)

lemma match_close_occurs: "match_close r \<Longrightarrow> \<exists>k. starts_with (drop k r) close_tag"
  by (auto simp: match_close_def list_ex_iff)

lemma match_lazy_occurs:
  "match_lazy captured r = Some g \<Longrightarrow> \<exists>k. starts_with (drop k r) close_tag"
proof (induction r arbitrary: captured)
  case Nil
  then have "match_close []" by (simp split: if_splits)
  then show ?case by (rule match_close_occurs)
next
  case (Cons c r)
  show ?case
  proof (cases "match_close (c # r)")
    case True
    then show ?thesis by (rule match_close_occurs)
  next
    case False
    with Cons.prems have "match_lazy (captured @ [c]) r = Some g" by simp
    then obtain k where "starts_with (drop k r) close_tag" using Cons.IH by blast
    then have "starts_with (drop (Suc k) (c # r)) close_tag" by simp
    then show ?thesis by blast
  qed
qed

lemma first_some_mem: "first_some xs = Some g \<Longrightarrow> Some g \<in> set xs"
  by (induction xs rule: first_some.induct) auto

lemma match_here_occurs:
  assumes "match_here s = Some g"
  shows "starts_with s open_tag \<and> (\<exists>k. starts_with (drop (length open_tag + k) s) close_tag)"
proof -
  from assms have o: "starts_with s open_tag"
    by (simp add: match_here_def split: if_splits)
  let ?r = "drop (length open_tag) s"
  from assms o have "first_some (map (\<lambda>n. match_lazy [] (drop n ?r)) (greedy_space ?r)) = Some g"
    by (simp add: match_here_def Let_def)
  then have "Some g \<in> set (map (\<lambda>n. match_lazy [] (drop n ?r)) (greedy_space ?r))"
    by (rule first_some_mem)
  then obtain n where "match_lazy [] (drop n ?r) = Some g" by auto
  then obtain k where "starts_with (drop k (drop n ?r)) close_tag"
    using match_lazy_occurs by blast
  then have "starts_with (drop (length open_tag + (n + k)) s) close_tag"
    by (simp add: add.commute add.left_commute)
  with o show ?thesis by blast
qed

lemma regex_match_occurs: "regex_match s = Some g \<Longrightarrow> \<exists>n. match_here (drop n s) = Some g"
proof (induction s)
  case Nil
  then show ?case by simp
next
  case (Cons c s)
  show ?case
  proof (cases "match_here (c # s)")
    case None
    with Cons.prems have "regex_match s = Some g" by simp
    then obtain n where "match_here (drop n s) = Some g" using Cons.IH by blast
    then have "match_here (drop (Suc n) (c # s)) = Some g" by simp
    then show ?thesis by blast
  next
    case (Some a)
    with Cons.prems have "match_here (drop 0 (c # s)) = Some g" by simp
    then show ?thesis by blast
  qed
qed

lemma first_at_exists:
  assumes "starts_with (drop n s) p"
  shows "\<exists>m\<le>n. first_at p s m"
proof -
  let ?P = "\<lambda>i. starts_with (drop i s) p"
  have "?P (LEAST i. ?P i)" using assms by (rule LeastI)
  moreover have "\<forall>i<(LEAST i. ?P i). \<not> ?P i" using not_less_Least by blast
  moreover have "(LEAST i. ?P i) \<le> n" using assms by (rule Least_le)
  ultimately show ?thesis unfolding first_at_iff by blast
qed

lemma starts_with_split:
  assumes "starts_with (drop n s) p" "p \<noteq> []"
  shows "s = take n s @ p @ drop (n + length p) s \<and> length (take n s) = n"
proof -
  from assms have t: "take (length p) (drop n s) = p" by (simp add: starts_with_def)
  with assms(2) have "drop n s \<noteq> []" by auto
  then have n: "n < length s" by simp
  have "drop n s = take (length p) (drop n s) @ drop (length p) (drop n s)"
    by (rule append_take_drop_id[symmetric])
  then have "drop n s = p @ drop (n + length p) s"
    unfolding t by (simp add: add.commute)
  then have "take n s @ drop n s = take n s @ p @ drop (n + length p) s" by simp
  then show ?thesis using n by simp
qed

lemma extractPromiseText_Some:
  assumes "extractPromiseText s = Some g"
  shows "\<exists>pre w post. s = pre @ open_tag @ w @ close_tag @ post
           \<and> first_at open_tag s (length pre)
           \<and> first_at close_tag (w @ close_tag @ post) (length w)
           \<and> g = trim w"
proof -
  have one: "open_tag \<noteq> []" and two: "close_tag \<noteq> []"
    using open_tag_Cons close_tag_Cons by auto
  from assms obtain g0 where "regex_match s = Some g0"
    by (auto simp: extractPromiseText_def split: option.splits)
  then obtain n where "match_here (drop n s) = Some g0"
    using regex_match_occurs by blast
  then obtain k where o: "starts_with (drop n s) open_tag"
      and c: "starts_with (drop (length open_tag + k) (drop n s)) close_tag"
    using match_here_occurs by blast
  from first_at_exists[OF o] obtain m where m: "m \<le> n" and fo: "first_at open_tag s m"
    by blast
  define pre where "pre = take m s"
  define rest where "rest = drop (m + length open_tag) s"
  from fo have "starts_with (drop m s) open_tag" by (simp add: first_at_iff)
  from starts_with_split[OF this one]
  have s: "s = pre @ open_tag @ rest" and lp: "length pre = m"
    by (simp_all add: pre_def rest_def)
  have "drop (length open_tag + k) (drop n s) = drop (n - m + k) rest"
    using m by (simp add: rest_def ac_simps)
  with c have "starts_with (drop (n - m + k) rest) close_tag" by simp
  from first_at_exists[OF this] obtain j where fc: "first_at close_tag rest j"
    by blast
  define w where "w = take j rest"
  define post where "post = drop (j + length close_tag) rest"
  from fc have "starts_with (drop j rest) close_tag" by (simp add: first_at_iff)
  from starts_with_split[OF this two]
  have r: "rest = w @ close_tag @ post" and lw: "length w = j"
    by (simp_all add: w_def post_def)
  have s': "s = pre @ open_tag @ w @ close_tag @ post"
    using s r by simp
  have f1: "first_at open_tag (pre @ open_tag @ w @ close_tag @ post) (length pre)"
    using fo lp s' by simp
  have f2: "first_at close_tag (w @ close_tag @ post) (length w)"
    using fc lw r by simp
  have "extractPromiseText s = Some (trim w)"
    unfolding s' by (rule extractPromiseText_first_marker[OF f1 f2])
  with assms have "g = trim w" by simp
  with s' f1 f2 show ?thesis by metis
qed

lemma truthy_Some: "truthy (Some s) \<longleftrightarrow> s \<noteq> []"
  by (simp add: truthy_def)

lemma truthy_None: "\<not> truthy None"
  by (simp add: truthy_def)

lemma handle_None:
  "fst (handle e None) = None \<and> \<not> sends_user_message (snd (handle e None))"
  by (cases e)
    (simp_all add: agent_end_def ralph_handoff_def cancel_ralph_def sends_user_message_def)

lemma run_None:
  "fst (run es None) = None \<and> \<not> sends_user_message (snd (run es None))"
proof (induction es)
  case Nil
  then show ?case by (simp add: sends_user_message_def)
next
  case (Cons e es)
  obtain effects where h: "handle e None = (None, effects)" "\<not> sends_user_message effects"
    using handle_None[of e] by (cases "handle e None") simp
  show ?case
    using Cons h by (simp add: split_beta sends_user_message_def)
qed

lemma run_append:
  "fst (run (a @ b) s) = fst (run b (fst (run a s)))
   \<and> snd (run (a @ b) s) = snd (run a s) @ snd (run b (fst (run a s)))"
  by (induction a arbitrary: s) (auto simp: split_beta Let_def)

lemma max_reached_stops:
  assumes "active st" "\<not> pendingHandoff st" "maxIterations st > 0" "totalIterations st \<ge> maxIterations st"
  shows "agent_end ms ctx (Some st) =
           (None, [UiNotify (MaxIterationsReached (maxIterations st) (sessionCount st) (elapsed ctx st)) Info,
                   AppendEntry None, SetStatus None])"
  using assms by (simp add: agent_end_def updateStatus_def)


lemma loop_inv_agent_end: "loop_inv p s \<Longrightarrow> loop_inv p (fst (agent_end ms ctx s))"
  by (cases s) (auto simp: loop_inv_def agent_end_def Let_def promise_detected_def truthy_def)

lemma loop_inv_handoff:
  "loop_inv p s \<Longrightarrow> loop_inv p (fst (ralph_handoff ctx ctx_new False cancelled s))"
  by (cases s)
    (auto simp: loop_inv_def ralph_handoff_def performHandoff_def Let_def split: if_splits)

lemma handoff_keeps_loop:
  "loop_inv p (Some st) \<Longrightarrow> fst (ralph_handoff ctx ctx_new False cancelled (Some st)) \<noteq> None"
  by (auto simp: loop_inv_def ralph_handoff_def performHandoff_def Let_def split: if_splits)

lemma loop_inv_handle: "loop_inv p s \<Longrightarrow> automatic e \<Longrightarrow> loop_inv p (fst (handle e s))"
  by (cases e) (simp_all add: loop_inv_agent_end loop_inv_handoff)

lemma loop_inv_run: "loop_inv p s \<Longrightarrow> list_all automatic es \<Longrightarrow> loop_inv p (fst (run es s))"
proof (induction es arbitrary: s)
  case Nil
  then show ?case by simp
next
  case (Cons e es)
  have "loop_inv p (fst (handle e s))" using Cons.prems by (simp add: loop_inv_handle)
  then have "loop_inv p (fst (run es (fst (handle e s))))" using Cons.prems by (intro Cons.IH) simp_all
  then show ?case by (simp add: split_beta)
qed

lemma stop_iff:
  assumes "loop_inv p (Some st)"
  shows "fst (agent_end ms ctx (Some st)) = None \<longleftrightarrow> totalIterations st = 3 \<and> \<not> pendingHandoff st"
  using assms
  by (auto simp: loop_inv_def agent_end_def Let_def promise_detected_def truthy_def split: if_splits)

lemma start_state:
  assumes "ralph_command args parsed ctx0 None = (Some st0, effects0)"
  shows "st0 = \<lparr>active = True, prompt = parsed_prompt parsed, iteration = 1, totalIterations = 1,
                 maxIterations = parsed_maxIterations parsed,
                 completionPromise = parsed_completionPromise parsed,
                 planFile = parsed_planFile parsed,
                 contextThreshold = parsed_contextThreshold parsed,
                 startedAt = date_now ctx0, sessionCount = 1, pendingHandoff = False\<rparr>"
  using assms by (auto simp: ralph_command_def Let_def split: if_splits)

lemma continue_step:
  assumes "active st" "\<not> pendingHandoff st" "\<not> (maxIterations st > 0 \<and> totalIterations st \<ge> maxIterations st)"
    "\<not> promise_detected ms st" "\<not> truthy (planFile st)"
  shows "\<exists>effects. agent_end ms ctx (Some st) =
           (Some (st\<lparr>iteration := iteration st + 1, totalIterations := totalIterations st + 1\<rparr>),
            effects @ [SendUserMessage (prompt st)])
          \<and> \<not> sends_user_message effects"
  using assms
  by (auto simp: agent_end_def Let_def sends_user_message_def updateStatus_def)

text \<open>
  Claim C1. On every \<^verbatim>\<open>agent_end\<close> event of an active loop with no pending handoff,
  if max-iterations is positive and the cumulative counter has reached it, the state is
  cleared and no user message is sent. For a loop started with max-iterations 3 and no
  completion promise, over every sequence of events of a loop left to itself (turns that
  end, and handoff commands that are carried out only when a handoff is pending): the
  counter starts at 1 and stays between 1 and 3; a turn stops the loop exactly when it
  finds the counter at 3 (no handoff is pending then), and a handoff command never stops
  it; once the loop has stopped, no event of any kind sends a user message again; and
  when no plan file is configured, the first two turns resubmit the prompt (counter 2,
  then 3) and the third turn stops the loop without sending a user message.
\<close>

theorem max_iterations_stop:
  "(active st \<and> \<not> pendingHandoff st \<and> 0 < maxIterations st \<and> maxIterations st \<le> totalIterations st \<longrightarrow>
      fst (agent_end ms ctx (Some st)) = None
      \<and> \<not> sends_user_message (snd (agent_end ms ctx (Some st))))
   \<and> (ralph_command args parsed ctx0 None = (Some st0, effects0)
      \<and> parsed_maxIterations parsed = 3 \<and> parsed_completionPromise parsed = None
      \<and> list_all automatic events \<longrightarrow>
        totalIterations st0 = 1
        \<and> loop_inv (parsed_prompt parsed) (fst (run events (Some st0)))
        \<and> ((\<exists>st'. fst (run events (Some st0)) = Some st'
                  \<and> fst (agent_end ms ctx (Some st')) = None)
             \<longleftrightarrow> (\<exists>st'. fst (run events (Some st0)) = Some st'
                  \<and> totalIterations st' = 3 \<and> \<not> pendingHandoff st'))
        \<and> (\<forall>st'. fst (run events (Some st0)) = Some st' \<longrightarrow>
               fst (ralph_handoff c c_new False cancelled (Some st')) \<noteq> None)
        \<and> (fst (run events (Some st0)) = None \<longrightarrow>
             fst (run (events @ later) (Some st0)) = None
             \<and> (\<exists>effects. snd (run (events @ later) (Some st0))
                               = snd (run events (Some st0)) @ effects
                           \<and> \<not> sends_user_message effects))
        \<and> (parsed_planFile parsed = None \<longrightarrow>
             (\<exists>st1 e1 st2 e2 e3.
                agent_end m1 c1 (Some st0) = (Some st1, e1 @ [SendUserMessage (parsed_prompt parsed)])
              \<and> totalIterations st1 = 2
              \<and> agent_end m2 c2 (Some st1) = (Some st2, e2 @ [SendUserMessage (parsed_prompt parsed)])
              \<and> totalIterations st2 = 3
              \<and> agent_end m3 c3 (Some st2) = (None, e3) \<and> \<not> sends_user_message e3)))"
proof -
  have general: "fst (agent_end ms ctx (Some st)) = None
      \<and> \<not> sends_user_message (snd (agent_end ms ctx (Some st)))"
    if "active st" "\<not> pendingHandoff st" "0 < maxIterations st" "maxIterations st \<le> totalIterations st"
    using max_reached_stops[OF that] by (simp add: sends_user_message_def)
  have started: "totalIterations st0 = 1
        \<and> loop_inv (parsed_prompt parsed) (fst (run events (Some st0)))
        \<and> ((\<exists>st'. fst (run events (Some st0)) = Some st'
                  \<and> fst (agent_end ms ctx (Some st')) = None)
             \<longleftrightarrow> (\<exists>st'. fst (run events (Some st0)) = Some st'
                  \<and> totalIterations st' = 3 \<and> \<not> pendingHandoff st'))
        \<and> (\<forall>st'. fst (run events (Some st0)) = Some st' \<longrightarrow>
               fst (ralph_handoff c c_new False cancelled (Some st')) \<noteq> None)
        \<and> (fst (run events (Some st0)) = None \<longrightarrow>
             fst (run (events @ later) (Some st0)) = None
             \<and> (\<exists>effects. snd (run (events @ later) (Some st0))
                               = snd (run events (Some st0)) @ effects
                           \<and> \<not> sends_user_message effects))
        \<and> (parsed_planFile parsed = None \<longrightarrow>
             (\<exists>st1 e1 st2 e2 e3.
                agent_end m1 c1 (Some st0) = (Some st1, e1 @ [SendUserMessage (parsed_prompt parsed)])
              \<and> totalIterations st1 = 2
              \<and> agent_end m2 c2 (Some st1) = (Some st2, e2 @ [SendUserMessage (parsed_prompt parsed)])
              \<and> totalIterations st2 = 3
              \<and> agent_end m3 c3 (Some st2) = (None, e3) \<and> \<not> sends_user_message e3))"
    if start: "ralph_command args parsed ctx0 None = (Some st0, effects0)"
      and max3: "parsed_maxIterations parsed = 3" and tag: "parsed_completionPromise parsed = None"
      and auto: "list_all automatic events"
  proof -
    note st0 = start_state[OF start]
    have inv0: "loop_inv (parsed_prompt parsed) (Some st0)"
      by (simp add: st0 loop_inv_def max3 tag)
    have inv: "loop_inv (parsed_prompt parsed) (fst (run events (Some st0)))"
      using inv0 auto by (rule loop_inv_run)
    have exact: "(\<exists>st'. fst (run events (Some st0)) = Some st'
                  \<and> fst (agent_end ms ctx (Some st')) = None)
             \<longleftrightarrow> (\<exists>st'. fst (run events (Some st0)) = Some st'
                  \<and> totalIterations st' = 3 \<and> \<not> pendingHandoff st')"
      using inv stop_iff[of "parsed_prompt parsed" _ ms ctx] by auto
    have handoff: "\<forall>st'. fst (run events (Some st0)) = Some st' \<longrightarrow>
               fst (ralph_handoff c c_new False cancelled (Some st')) \<noteq> None"
      using inv handoff_keeps_loop[of "parsed_prompt parsed"] by auto
    have after: "fst (run (events @ later) (Some st0)) = None
             \<and> (\<exists>effects. snd (run (events @ later) (Some st0))
                               = snd (run events (Some st0)) @ effects
                           \<and> \<not> sends_user_message effects)"
      if "fst (run events (Some st0)) = None"
      using that run_append[of events later "Some st0"] run_None[of later]
      by simp
    have scenario: "\<exists>st1 e1 st2 e2 e3.
                agent_end m1 c1 (Some st0) = (Some st1, e1 @ [SendUserMessage (parsed_prompt parsed)])
              \<and> totalIterations st1 = 2
              \<and> agent_end m2 c2 (Some st1) = (Some st2, e2 @ [SendUserMessage (parsed_prompt parsed)])
              \<and> totalIterations st2 = 3
              \<and> agent_end m3 c3 (Some st2) = (None, e3) \<and> \<not> sends_user_message e3"
      if plan: "parsed_planFile parsed = None"
    proof -
      let ?st1 = "st0\<lparr>iteration := iteration st0 + 1, totalIterations := totalIterations st0 + 1\<rparr>"
      let ?st2 = "?st1\<lparr>iteration := iteration ?st1 + 1, totalIterations := totalIterations ?st1 + 1\<rparr>"
      have np: "\<not> promise_detected m st" if "completionPromise st = None" for m st
        using that by (simp add: promise_detected_def truthy_def)
      obtain e1 where e1: "agent_end m1 c1 (Some st0) = (Some ?st1, e1 @ [SendUserMessage (prompt st0)])"
        using continue_step[of st0 m1 c1] np[of st0 m1]
        by (auto simp: st0 max3 tag plan truthy_def)
      obtain e2 where e2: "agent_end m2 c2 (Some ?st1) = (Some ?st2, e2 @ [SendUserMessage (prompt ?st1)])"
        using continue_step[of ?st1 m2 c2] np[of ?st1 m2]
        by (auto simp: st0 max3 tag plan truthy_def)
      have e3: "fst (agent_end m3 c3 (Some ?st2)) = None
                \<and> \<not> sends_user_message (snd (agent_end m3 c3 (Some ?st2)))"
        using max_reached_stops[of ?st2 m3 c3]
        by (simp add: st0 max3 sends_user_message_def)
      have p: "prompt st0 = parsed_prompt parsed" "prompt ?st1 = parsed_prompt parsed"
        by (simp_all add: st0)
      have t: "totalIterations ?st1 = 2" "totalIterations ?st2 = 3"
        by (simp_all add: st0)
      show ?thesis
        using e1 e2 e3 t unfolding p
        by (metis prod.collapse)
    qed
    show ?thesis
      using inv exact handoff after scenario by (simp add: st0)
  qed
  show ?thesis using general started by blast
qed

lemma bitlen_rat_bounds:
  assumes "0 < a"
  shows "(2::rat) powi (bitlen a - 1) \<le> of_int a \<and> of_int a < (2::rat) powi (bitlen a)"
proof -
  from assms have pos: "1 \<le> bitlen a"
    using bitlen_eq_zero_iff[of a] bitlen_nonneg[of a] by linarith
  have b: "2 ^ nat (bitlen a - 1) \<le> a" "a < 2 ^ nat (bitlen a)"
    using bitlen_bounds[OF assms] by simp_all
  have "(2::rat) powi (bitlen a - 1) = of_int (2 ^ nat (bitlen a - 1))"
    using pos by (simp add: power_int_def)
  moreover have "(2::rat) powi (bitlen a) = of_int (2 ^ nat (bitlen a))"
    using pos by (simp add: power_int_def)
  moreover have "(of_int (2 ^ nat (bitlen a - 1)) :: rat) \<le> of_int a"
    using b(1) by (simp only: of_int_le_iff)
  moreover have "(of_int a :: rat) < of_int (2 ^ nat (bitlen a))"
    using b(2) by (simp only: of_int_less_iff)
  ultimately show ?thesis by simp
qed

lemma floor_log2_bounds:
  assumes "0 < q"
  shows "2 powi (floor_log2 q) \<le> q \<and> q < 2 powi (floor_log2 q + 1)"
proof -
  obtain a b where ab: "quotient_of q = (a, b)" by (cases "quotient_of q")
  then have b: "0 < b" using quotient_of_denom_pos by blast
  have q: "q = of_int a / of_int b" using ab by (rule quotient_of_div)
  with assms b have a: "0 < a" by (simp add: zero_less_divide_iff)
  let ?e0 = "bitlen a - bitlen b"
  note A = bitlen_rat_bounds[OF a] and B = bitlen_rat_bounds[OF b]
  have bpos: "(0::rat) < of_int b" using b by simp
  have upper: "q < 2 powi (?e0 + 1)"
  proof -
    have "q < 2 powi (bitlen a) / 2 powi (bitlen b - 1)"
      unfolding q using A B bpos a
      by (intro frac_less) (auto intro: less_imp_le)
    also have "\<dots> = 2 powi (?e0 + 1)"
      by (simp add: power_int_diff[symmetric] algebra_simps)
    finally show ?thesis .
  qed
  have lower: "2 powi (?e0 - 1) < q"
  proof -
    have "2 powi (bitlen a - 1) / 2 powi (bitlen b) < q"
      unfolding q using A B bpos
      by (intro frac_less2) (auto intro: less_imp_le)
    moreover have "(2::rat) powi (bitlen a - 1) / 2 powi (bitlen b) = 2 powi (?e0 - 1)"
      by (simp add: power_int_diff[symmetric] algebra_simps)
    ultimately show ?thesis by simp
  qed
  show ?thesis
  proof (cases "2 powi ?e0 \<le> q")
    case True
    then have "floor_log2 q = ?e0" by (simp add: floor_log2_def ab)
    with True upper show ?thesis by simp
  next
    case False
    then have "floor_log2 q = ?e0 - 1" by (simp add: floor_log2_def ab)
    with False lower show ?thesis by simp
  qed
qed

lemma round_half_even_near: "\<bar>of_int (round_half_even x) - x\<bar> \<le> 1 / 2"
proof -
  have f: "of_int \<lfloor>x\<rfloor> \<le> x" "x < of_int \<lfloor>x\<rfloor> + 1"
    by linarith+
  consider "x - of_int \<lfloor>x\<rfloor> < 1 / 2" | "1 / 2 < x - of_int \<lfloor>x\<rfloor>" | "x - of_int \<lfloor>x\<rfloor> = 1 / 2"
    by linarith
  then show ?thesis
  proof cases
    case 1
    then have "round_half_even x = \<lfloor>x\<rfloor>" by (simp add: round_half_even_def)
    with 1 f show ?thesis by simp
  next
    case 2
    then have "round_half_even x = \<lfloor>x\<rfloor> + 1" by (simp add: round_half_even_def)
    with 2 f show ?thesis by simp
  next
    case 3
    then have "round_half_even x = \<lfloor>x\<rfloor> \<or> round_half_even x = \<lfloor>x\<rfloor> + 1"
      by (simp add: round_half_even_def Let_def)
    with 3 f show ?thesis by auto
  qed
qed

lemma to_double_error:
  assumes "0 < q"
  shows "\<bar>to_double q - q\<bar> \<le> q / 2 ^ 53"
proof -
  let ?e = "floor_log2 q"
  let ?s = "q * 2 powi (52 - ?e)"
  let ?m = "round_half_even ?s"
  have td: "to_double q = of_int ?m * 2 powi (?e - 52)"
    using assms by (simp add: to_double_def Let_def)
  have p: "(0::rat) < 2 powi (?e - 52)" by simp
  have inv: "(2::rat) powi (52 - ?e) * 2 powi (?e - 52) = 1"
    by (simp add: power_int_add[symmetric])
  have "to_double q - q = (of_int ?m - ?s) * 2 powi (?e - 52)"
    unfolding td using inv by (simp add: algebra_simps)
  then have "\<bar>to_double q - q\<bar> = \<bar>of_int ?m - ?s\<bar> * 2 powi (?e - 52)"
    using p by (simp add: abs_mult)
  also have "\<dots> \<le> (1 / 2) * 2 powi (?e - 52)"
    using round_half_even_near[of ?s] p by (intro mult_right_mono) simp_all
  also have "\<dots> = 2 powi ?e / 2 ^ 53"
    by (simp add: power_int_diff)
  also have "\<dots> \<le> q / 2 ^ 53"
    using floor_log2_bounds[OF assms] by (intro divide_right_mono) simp_all
  finally show ?thesis .
qed

lemma to_double_0: "to_double 0 = 0"
  by (simp add: to_double_def)

lemma to_double_pos:
  assumes "0 < q"
  shows "0 < to_double q"
proof -
  have "q / 2 ^ 53 < q" using assms by (simp add: field_simps)
  with to_double_error[OF assms] show ?thesis by linarith
qed

lemma Math_round_near: "\<bar>of_int (Math_round x) - x\<bar> \<le> 1 / 2"
  unfolding Math_round_def by linarith

lemma double_product_error:
  fixes x0 :: rat
  assumes "0 \<le> x0"
  shows "\<bar>to_double (to_double x0 * 100) - x0 * 100\<bar> \<le> x0 * 100 / 2 ^ 51"
proof (cases "x0 = 0")
  case True
  then show ?thesis by (simp add: to_double_0)
next
  case False
  with assms have pos: "0 < x0" by simp
  define f where "f = to_double x0"
  define g where "g = to_double (f * 100)"
  have ef: "\<bar>f - x0\<bar> \<le> x0 / 2 ^ 53"
    unfolding f_def by (rule to_double_error[OF pos])
  have fpos: "0 < f * 100"
    unfolding f_def using to_double_pos[OF pos] by simp
  have eg: "\<bar>g - f * 100\<bar> \<le> f * 100 / 2 ^ 53"
    unfolding g_def by (rule to_double_error[OF fpos])
  have f_le: "f \<le> x0 + x0 / 2 ^ 53" using ef by (simp only: abs_diff_le_iff)
  have "f * 100 / 2 ^ 53 \<le> (x0 + x0 / 2 ^ 53) * 100 / 2 ^ 53"
    using f_le by (simp add: divide_right_mono)
  also have "\<dots> \<le> x0 * 300 / 2 ^ 53"
    using pos by (simp add: field_simps)
  finally have "f * 100 / 2 ^ 53 \<le> x0 * 300 / 2 ^ 53" .
  with eg have eg': "\<bar>g - f * 100\<bar> \<le> x0 * 300 / 2 ^ 53"
    by (rule order_trans)
  have f_bounds: "x0 - x0 / 2 ^ 53 \<le> f" "f \<le> x0 + x0 / 2 ^ 53"
    using ef by (simp_all only: abs_diff_le_iff)
  have g_bounds: "f * 100 - x0 * 300 / 2 ^ 53 \<le> g" "g \<le> f * 100 + x0 * 300 / 2 ^ 53"
    using eg' by (simp_all only: abs_diff_le_iff)
  have "x0 * 100 - (x0 * 300 / 2 ^ 53 + 100 * (x0 / 2 ^ 53)) \<le> g"
    "g \<le> x0 * 100 + (x0 * 300 / 2 ^ 53 + 100 * (x0 / 2 ^ 53))"
    using f_bounds g_bounds by linarith+
  then have "\<bar>g - x0 * 100\<bar> \<le> x0 * 300 / 2 ^ 53 + 100 * (x0 / 2 ^ 53)"
    by (simp only: abs_diff_le_iff)
  also have "\<dots> = x0 * 100 / 2 ^ 51"
    by simp
  finally show ?thesis unfolding g_def f_def .
qed

lemma percent_accuracy:
  assumes "0 < w" "0 \<le> t"
  shows "\<exists>n. percent_of t w = Num n
           \<and> n = Math_round (to_double (to_double (of_int t / of_int w) * 100))
           \<and> \<bar>of_int n - of_int t / of_int w * 100\<bar>
               \<le> 1 / 2 + (of_int t / of_int w * 100 :: rat) / 2 ^ 51"
proof -
  define x0 :: rat where "x0 = of_int t / of_int w"
  define g where "g = to_double (to_double x0 * 100)"
  define n where "n = Math_round g"
  have p: "percent_of t w = Num n"
    using assms by (simp add: percent_of_def n_def g_def x0_def)
  have x0: "0 \<le> x0" using assms by (simp add: x0_def)
  have "\<bar>g - x0 * 100\<bar> \<le> x0 * 100 / 2 ^ 51"
    unfolding g_def by (rule double_product_error[OF x0])
  moreover have "\<bar>of_int n - g\<bar> \<le> 1 / 2"
    unfolding n_def by (rule Math_round_near)
  ultimately have "\<bar>of_int n - x0 * 100\<bar> \<le> 1 / 2 + x0 * 100 / 2 ^ 51"
    by (simp only: abs_diff_le_iff) linarith
  with p show ?thesis unfolding n_def g_def x0_def by blast
qed

lemma promise_stops:
  assumes "active st" "\<not> pendingHandoff st"
    "\<not> (0 < maxIterations st \<and> maxIterations st \<le> totalIterations st)"
    "promise_detected ms st"
  shows "agent_end ms ctx (Some st) =
           (None, [UiNotify (LoopComplete (the (completionPromise st)) (totalIterations st)
                      (sessionCount st) (elapsed ctx st)) Info,
                   AppendEntry None, SetStatus None])"
  using assms by (simp add: agent_end_def updateStatus_def)

lemma no_promise_continues:
  assumes "active st" "\<not> pendingHandoff st"
    "\<not> (0 < maxIterations st \<and> maxIterations st \<le> totalIterations st)"
    "\<not> promise_detected ms st"
  shows "fst (agent_end ms ctx (Some st)) \<noteq> None"
  using assms by (simp add: agent_end_def Let_def)

lemma promise_detected_iff:
  assumes "completionPromise st = Some tag" "tag \<noteq> []"
  shows "promise_detected ms st \<longleftrightarrow>
           (\<exists>m. lastAssistant ms = Some m \<and> extractPromiseText (extractTextContent m) = Some tag)"
  using assms by (simp add: promise_detected_def truthy_def split: option.splits)

lemma lastAssistant_found:
  assumes "isAssistantMessage m" "\<forall>m'\<in>set later. \<not> isAssistantMessage m'"
  shows "lastAssistant (earlier @ [m] @ later) = Some m"
proof -
  have "find isAssistantMessage (rev later @ xs) = find isAssistantMessage xs" for xs
    using assms(2) by (induction later arbitrary: xs) simp_all
  then show ?thesis using assms(1) by (simp add: lastAssistant_def)
qed

lemma lastAssistant_none:
  assumes "\<forall>m\<in>set ms. \<not> isAssistantMessage m"
  shows "lastAssistant ms = None"
  using assms by (simp add: lastAssistant_def find_None_iff)

lemma assistant_says_text: "isAssistantMessage (assistant_says s) \<and> extractTextContent (assistant_says s) = s"
  by (simp add: assistant_says_def isAssistantMessage_def extractTextContent_def)

lemma lastAssistant_says: "lastAssistant (ms @ [assistant_says s]) = Some (assistant_says s)"
  using lastAssistant_found[of "assistant_says s" "[]" ms] by (simp add: assistant_says_text)

lemma first_marker_literal:
  assumes "first_at ''<promise>'' (pre @ ''<promise>'' @ w @ ''</promise>'' @ post) (length pre)"
    and "first_at ''</promise>'' (w @ ''</promise>'' @ post) (length w)"
  shows "extractPromiseText (pre @ ''<promise>'' @ w @ ''</promise>'' @ post) = Some (trim w)"
  using extractPromiseText_first_marker[of pre w post] assms
  by (simp only: open_tag_def close_tag_def)

lemma extractPromiseText_iff:
  "extractPromiseText s = Some g \<longleftrightarrow>
     (\<exists>pre w post. s = pre @ ''<promise>'' @ w @ ''</promise>'' @ post
        \<and> first_at ''<promise>'' s (length pre)
        \<and> first_at ''</promise>'' (w @ ''</promise>'' @ post) (length w)
        \<and> g = trim w)"
proof
  assume "extractPromiseText s = Some g"
  from extractPromiseText_Some[OF this] show
    "\<exists>pre w post. s = pre @ ''<promise>'' @ w @ ''</promise>'' @ post
        \<and> first_at ''<promise>'' s (length pre)
        \<and> first_at ''</promise>'' (w @ ''</promise>'' @ post) (length w)
        \<and> g = trim w"
    by (simp only: open_tag_def close_tag_def)
next
  assume "\<exists>pre w post. s = pre @ ''<promise>'' @ w @ ''</promise>'' @ post
        \<and> first_at ''<promise>'' s (length pre)
        \<and> first_at ''</promise>'' (w @ ''</promise>'' @ post) (length w)
        \<and> g = trim w"
  then obtain pre w post where s: "s = pre @ ''<promise>'' @ w @ ''</promise>'' @ post"
    and f1: "first_at ''<promise>'' s (length pre)"
    and f2: "first_at ''</promise>'' (w @ ''</promise>'' @ post) (length w)"
    and g: "g = trim w"
    by blast
  from f1 have f1': "first_at ''<promise>'' (pre @ ''<promise>'' @ w @ ''</promise>'' @ post) (length pre)"
    using s by simp
  show "extractPromiseText s = Some g"
    using first_marker_literal[OF f1' f2] s g by simp
qed

lemma marker_DONE: "extractPromiseText ''<promise>DONE</promise>'' = Some ''DONE''"
  by code_simp

lemma marker_Done: "extractPromiseText ''<promise>Done</promise>'' = Some ''Done''"
  by code_simp

lemma marker_unclosed: "extractPromiseText ''<promise>DONE'' = None"
  by code_simp

lemma marker_unopened: "extractPromiseText ''DONE</promise>'' = None"
  by code_simp

text \<open>
  Claim C2 (as amended). On an \<^verbatim>\<open>agent_end\<close> event of an active loop with a
  configured completion promise (no pending handoff, max-iterations not reached), the
  loop terminates as successful exactly when the turn has an assistant message and the
  text of the last one carries a marker whose extracted text equals the promise. The last
  assistant message is the last message of the list that is an assistant message with
  array content. A text carries a marker exactly when it contains \<open><promise>\<close> and,
  after the first \<open><promise>\<close>, a \<open></promise>\<close>; the extracted text is the text
  between the first \<open><promise>\<close> and the first \<open></promise>\<close> after it, without its
  leading and trailing white space. With the promise \<open>DONE\<close>, a last assistant message
  \<open><promise>DONE</promise>\<close> terminates the loop; \<open><promise>Done</promise>\<close>, the
  unclosed \<open><promise>DONE\<close> and the unopened \<open>DONE</promise>\<close> do not.
\<close>

theorem promise_completes_loop:
  "(active st \<and> \<not> pendingHandoff st
      \<and> \<not> (0 < maxIterations st \<and> maxIterations st \<le> totalIterations st)
      \<and> completionPromise st = Some tag \<and> tag \<noteq> [] \<longrightarrow>
      (fst (agent_end ms ctx (Some st)) = None
         \<longleftrightarrow> (\<exists>m. lastAssistant ms = Some m
                  \<and> extractPromiseText (extractTextContent m) = Some tag))
      \<and> (fst (agent_end ms ctx (Some st)) = None
         \<longleftrightarrow> (\<exists>m pre w post. lastAssistant ms = Some m
                  \<and> extractTextContent m = pre @ ''<promise>'' @ w @ ''</promise>'' @ post
                  \<and> first_at ''<promise>'' (extractTextContent m) (length pre)
                  \<and> first_at ''</promise>'' (w @ ''</promise>'' @ post) (length w)
                  \<and> trim w = tag))
      \<and> (fst (agent_end ms ctx (Some st)) = None \<longrightarrow>
           snd (agent_end ms ctx (Some st)) =
             [UiNotify (LoopComplete tag (totalIterations st) (sessionCount st) (elapsed ctx st)) Info,
              AppendEntry None, SetStatus None]))
   \<and> (isAssistantMessage m \<and> (\<forall>m'\<in>set later. \<not> isAssistantMessage m') \<longrightarrow>
        lastAssistant (earlier @ [m] @ later) = Some m)
   \<and> ((\<forall>m'\<in>set ms. \<not> isAssistantMessage m') \<longrightarrow> lastAssistant ms = None)
   \<and> (extractPromiseText s = Some g \<longleftrightarrow>
        (\<exists>pre w post. s = pre @ ''<promise>'' @ w @ ''</promise>'' @ post
           \<and> first_at ''<promise>'' s (length pre)
           \<and> first_at ''</promise>'' (w @ ''</promise>'' @ post) (length w)
           \<and> g = trim w))
   \<and> (first_at ''<promise>'' (pre @ ''<promise>'' @ w @ ''</promise>'' @ post) (length pre)
      \<and> first_at ''</promise>'' (w @ ''</promise>'' @ post) (length w) \<longrightarrow>
        extractPromiseText (pre @ ''<promise>'' @ w @ ''</promise>'' @ post) = Some (trim w))
   \<and> (active st \<and> \<not> pendingHandoff st
      \<and> \<not> (0 < maxIterations st \<and> maxIterations st \<le> totalIterations st)
      \<and> completionPromise st = Some ''DONE'' \<longrightarrow>
        fst (agent_end (ms @ [assistant_says ''<promise>DONE</promise>'']) ctx (Some st)) = None
        \<and> fst (agent_end (ms @ [assistant_says ''<promise>Done</promise>'']) ctx (Some st)) \<noteq> None
        \<and> fst (agent_end (ms @ [assistant_says ''<promise>DONE'']) ctx (Some st)) \<noteq> None
        \<and> fst (agent_end (ms @ [assistant_says ''DONE</promise>'']) ctx (Some st)) \<noteq> None)"
proof -
  have exactly: "(fst (agent_end ms ctx (Some st)) = None
         \<longleftrightarrow> (\<exists>m. lastAssistant ms = Some m
                  \<and> extractPromiseText (extractTextContent m) = Some tag))
      \<and> (fst (agent_end ms ctx (Some st)) = None \<longrightarrow>
           snd (agent_end ms ctx (Some st)) =
             [UiNotify (LoopComplete tag (totalIterations st) (sessionCount st) (elapsed ctx st)) Info,
              AppendEntry None, SetStatus None])"
    if pre: "active st" "\<not> pendingHandoff st"
        "\<not> (0 < maxIterations st \<and> maxIterations st \<le> totalIterations st)"
      and tag: "completionPromise st = Some tag" "tag \<noteq> []"
    for ms tag
  proof (cases "promise_detected ms st")
    case True
    then show ?thesis
      using promise_stops[OF pre True, of ctx] promise_detected_iff[OF tag, of ms] tag by simp
  next
    case False
    then show ?thesis
      using no_promise_continues[OF pre False, of ctx] promise_detected_iff[OF tag, of ms] by blast
  qed
  have marker: "(\<exists>m. lastAssistant ms = Some m
                  \<and> extractPromiseText (extractTextContent m) = Some tag)
         \<longleftrightarrow> (\<exists>m pre w post. lastAssistant ms = Some m
                  \<and> extractTextContent m = pre @ ''<promise>'' @ w @ ''</promise>'' @ post
                  \<and> first_at ''<promise>'' (extractTextContent m) (length pre)
                  \<and> first_at ''</promise>'' (w @ ''</promise>'' @ post) (length w)
                  \<and> trim w = tag)"
    for tag
    unfolding extractPromiseText_iff by blast
  have direct: "fst (agent_end ms ctx (Some st)) = None
         \<longleftrightarrow> (\<exists>m pre w post. lastAssistant ms = Some m
                  \<and> extractTextContent m = pre @ ''<promise>'' @ w @ ''</promise>'' @ post
                  \<and> first_at ''<promise>'' (extractTextContent m) (length pre)
                  \<and> first_at ''</promise>'' (w @ ''</promise>'' @ post) (length w)
                  \<and> trim w = tag)"
    if pre: "active st" "\<not> pendingHandoff st"
        "\<not> (0 < maxIterations st \<and> maxIterations st \<le> totalIterations st)"
      and tag: "completionPromise st = Some tag" "tag \<noteq> []"
    using exactly[OF pre tag, of ms] marker[of tag] by (simp only:)
  have examples: "fst (agent_end (ms @ [assistant_says ''<promise>DONE</promise>'']) ctx (Some st)) = None
        \<and> fst (agent_end (ms @ [assistant_says ''<promise>Done</promise>'']) ctx (Some st)) \<noteq> None
        \<and> fst (agent_end (ms @ [assistant_says ''<promise>DONE'']) ctx (Some st)) \<noteq> None
        \<and> fst (agent_end (ms @ [assistant_says ''DONE</promise>'']) ctx (Some st)) \<noteq> None"
    if pre: "active st" "\<not> pendingHandoff st"
        "\<not> (0 < maxIterations st \<and> maxIterations st \<le> totalIterations st)"
      and tag: "completionPromise st = Some ''DONE''"
    using exactly[OF pre tag, of "ms @ [assistant_says ''<promise>DONE</promise>'']"]
      exactly[OF pre tag, of "ms @ [assistant_says ''<promise>Done</promise>'']"]
      exactly[OF pre tag, of "ms @ [assistant_says ''<promise>DONE'']"]
      exactly[OF pre tag, of "ms @ [assistant_says ''DONE</promise>'']"]
    by (simp add: lastAssistant_says assistant_says_text marker_DONE marker_Done
        marker_unclosed marker_unopened)
  have first: "(fst (agent_end ms ctx (Some st)) = None
         \<longleftrightarrow> (\<exists>m. lastAssistant ms = Some m
                  \<and> extractPromiseText (extractTextContent m) = Some tag))
      \<and> (fst (agent_end ms ctx (Some st)) = None
         \<longleftrightarrow> (\<exists>m pre w post. lastAssistant ms = Some m
                  \<and> extractTextContent m = pre @ ''<promise>'' @ w @ ''</promise>'' @ post
                  \<and> first_at ''<promise>'' (extractTextContent m) (length pre)
                  \<and> first_at ''</promise>'' (w @ ''</promise>'' @ post) (length w)
                  \<and> trim w = tag))
      \<and> (fst (agent_end ms ctx (Some st)) = None \<longrightarrow>
           snd (agent_end ms ctx (Some st)) =
             [UiNotify (LoopComplete tag (totalIterations st) (sessionCount st) (elapsed ctx st)) Info,
              AppendEntry None, SetStatus None])"
    if "active st \<and> \<not> pendingHandoff st
      \<and> \<not> (0 < maxIterations st \<and> maxIterations st \<le> totalIterations st)
      \<and> completionPromise st = Some tag \<and> tag \<noteq> []"
  proof -
    from that have pre: "active st" "\<not> pendingHandoff st"
        "\<not> (0 < maxIterations st \<and> maxIterations st \<le> totalIterations st)"
      and tag: "completionPromise st = Some tag" "tag \<noteq> []"
      by simp_all
    show ?thesis
      using exactly[OF pre tag, of ms] direct[OF pre tag] by blast
  qed
  show ?thesis
  proof (intro conjI)
    show "active st \<and> \<not> pendingHandoff st
      \<and> \<not> (0 < maxIterations st \<and> maxIterations st \<le> totalIterations st)
      \<and> completionPromise st = Some tag \<and> tag \<noteq> [] \<longrightarrow>
      (fst (agent_end ms ctx (Some st)) = None
         \<longleftrightarrow> (\<exists>m. lastAssistant ms = Some m
                  \<and> extractPromiseText (extractTextContent m) = Some tag))
      \<and> (fst (agent_end ms ctx (Some st)) = None
         \<longleftrightarrow> (\<exists>m pre w post. lastAssistant ms = Some m
                  \<and> extractTextContent m = pre @ ''<promise>'' @ w @ ''</promise>'' @ post
                  \<and> first_at ''<promise>'' (extractTextContent m) (length pre)
                  \<and> first_at ''</promise>'' (w @ ''</promise>'' @ post) (length w)
                  \<and> trim w = tag))
      \<and> (fst (agent_end ms ctx (Some st)) = None \<longrightarrow>
           snd (agent_end ms ctx (Some st)) =
             [UiNotify (LoopComplete tag (totalIterations st) (sessionCount st) (elapsed ctx st)) Info,
              AppendEntry None, SetStatus None])"
      using first by (rule impI)
    show "isAssistantMessage m \<and> (\<forall>m'\<in>set later. \<not> isAssistantMessage m') \<longrightarrow>
        lastAssistant (earlier @ [m] @ later) = Some m"
      using lastAssistant_found by blast
    show "(\<forall>m'\<in>set ms. \<not> isAssistantMessage m') \<longrightarrow> lastAssistant ms = None"
      using lastAssistant_none by blast
    show "extractPromiseText s = Some g \<longleftrightarrow>
        (\<exists>pre w post. s = pre @ ''<promise>'' @ w @ ''</promise>'' @ post
           \<and> first_at ''<promise>'' s (length pre)
           \<and> first_at ''</promise>'' (w @ ''</promise>'' @ post) (length w)
           \<and> g = trim w)"
      by (rule extractPromiseText_iff)
    show "first_at ''<promise>'' (pre @ ''<promise>'' @ w @ ''</promise>'' @ post) (length pre)
      \<and> first_at ''</promise>'' (w @ ''</promise>'' @ post) (length w) \<longrightarrow>
        extractPromiseText (pre @ ''<promise>'' @ w @ ''</promise>'' @ post) = Some (trim w)"
      using first_marker_literal by blast
    show "active st \<and> \<not> pendingHandoff st
      \<and> \<not> (0 < maxIterations st \<and> maxIterations st \<le> totalIterations st)
      \<and> completionPromise st = Some ''DONE'' \<longrightarrow>
        fst (agent_end (ms @ [assistant_says ''<promise>DONE</promise>'']) ctx (Some st)) = None
        \<and> fst (agent_end (ms @ [assistant_says ''<promise>Done</promise>'']) ctx (Some st)) \<noteq> None
        \<and> fst (agent_end (ms @ [assistant_says ''<promise>DONE'']) ctx (Some st)) \<noteq> None
        \<and> fst (agent_end (ms @ [assistant_says ''DONE</promise>'']) ctx (Some st)) \<noteq> None"
      using examples by blast
  qed
qed

lemma example_state_ok:
  "active example_state \<and> \<not> pendingHandoff example_state
   \<and> \<not> (0 < maxIterations example_state \<and> maxIterations example_state \<le> totalIterations example_state)
   \<and> completionPromise example_state = Some ''DONE''"
  by (simp add: example_state_def)

lemma example_state_fields:
  "totalIterations example_state = 1" "sessionCount example_state = 1"
  "planFile example_state = None" "contextThreshold example_state = 70"
  "prompt example_state = ''build the API''" "iteration example_state = 1"
  "maxIterations example_state = 0"
  by (simp_all add: example_state_def)

text \<open>
  The theorem at a loop with the promise \<open>DONE\<close>, for a turn that ends with the marker,
  for one that ends with the near match and for one that ends with an unclosed marker.
\<close>

theorem promise_completes_loop_witness:
  "fst (agent_end [assistant_says ''working'', assistant_says ''<promise>DONE</promise>'']
          quiet_context (Some example_state)) = None
   \<and> fst (agent_end [assistant_says ''working'', assistant_says ''<promise>Done</promise>'']
          quiet_context (Some example_state)) \<noteq> None
   \<and> fst (agent_end [assistant_says ''working'', assistant_says ''<promise>DONE'']
          quiet_context (Some example_state)) \<noteq> None
   \<and> snd (agent_end [assistant_says ''working'', assistant_says ''<promise>DONE</promise>'']
          quiet_context (Some example_state))
       = [UiNotify (LoopComplete ''DONE'' 1 1 60) Info, AppendEntry None, SetStatus None]"
proof -
  have e: "elapsed quiet_context example_state = 60"
    by code_simp
  note t1 = promise_completes_loop[where st = example_state and tag = "''DONE''"
        and ctx = quiet_context and ms = "[assistant_says ''working'']"]
  note t2 = promise_completes_loop[where st = example_state and tag = "''DONE''"
        and ctx = quiet_context
        and ms = "[assistant_says ''working'', assistant_says ''<promise>DONE</promise>'']"]
  have ex: "fst (agent_end ([assistant_says ''working''] @ [assistant_says ''<promise>DONE</promise>''])
               quiet_context (Some example_state)) = None
        \<and> fst (agent_end ([assistant_says ''working''] @ [assistant_says ''<promise>Done</promise>''])
               quiet_context (Some example_state)) \<noteq> None
        \<and> fst (agent_end ([assistant_says ''working''] @ [assistant_says ''<promise>DONE''])
               quiet_context (Some example_state)) \<noteq> None
        \<and> fst (agent_end ([assistant_says ''working''] @ [assistant_says ''DONE</promise>''])
               quiet_context (Some example_state)) \<noteq> None"
    using t1 example_state_ok by blast
  have "fst (agent_end [assistant_says ''working'', assistant_says ''<promise>DONE</promise>'']
               quiet_context (Some example_state)) = None \<longrightarrow>
        snd (agent_end [assistant_says ''working'', assistant_says ''<promise>DONE</promise>'']
               quiet_context (Some example_state)) =
          [UiNotify (LoopComplete ''DONE'' (totalIterations example_state)
                       (sessionCount example_state) (elapsed quiet_context example_state)) Info,
           AppendEntry None, SetStatus None]"
    using t2 example_state_ok by blast
  with ex show ?thesis
    by (simp add: e example_state_fields)
qed

lemma marker_spaces: "extractPromiseText ''<promise> DONE </promise>'' = Some ''DONE''"
  by code_simp

lemma marker_second:
  "extractPromiseText ''<promise>NOPE</promise> <promise>DONE</promise>'' = Some ''NOPE''"
  by code_simp

text \<open>
  Claim C2 as stated has the loop terminate exactly when the text enclosed by a marker of
  the message equals the promise. A marker enclosing \<open> DONE \<close>, which is not the promise
  \<open>DONE\<close>, terminates the loop; and a message that contains \<open><promise>DONE</promise>\<close>
  after another marker does not.
\<close>

theorem enclosed_text_counterexample:
  "fst (agent_end [assistant_says ''<promise> DONE </promise>''] quiet_context (Some example_state)) = None
   \<and> '' DONE '' \<noteq> ''DONE''
   \<and> fst (agent_end [assistant_says ''<promise>NOPE</promise> <promise>DONE</promise>'']
          quiet_context (Some example_state)) \<noteq> None"
proof -
  have a: "promise_detected [assistant_says ''<promise> DONE </promise>''] example_state"
    using lastAssistant_says[of "[]" "''<promise> DONE </promise>''"]
    by (simp add: promise_detected_def truthy_def example_state_def assistant_says_text marker_spaces)
  have b: "\<not> promise_detected [assistant_says ''<promise>NOPE</promise> <promise>DONE</promise>''] example_state"
    using lastAssistant_says[of "[]" "''<promise>NOPE</promise> <promise>DONE</promise>''"]
    by (simp add: promise_detected_def truthy_def example_state_def assistant_says_text marker_second)
  show ?thesis
    using promise_stops[OF _ _ _ a, of quiet_context] no_promise_continues[OF _ _ _ b, of quiet_context]
    by (simp add: example_state_def)
qed

text \<open>
  Claim C10 (as amended). Completion matching strips the white space around the text of
  the marker: when the text of the last assistant message is
  \<open>pre <promise> w </promise> post\<close>, this marker being the first \<open><promise>\<close> of the
  text and its \<open></promise>\<close> the first after it, and \<open>w\<close> without its leading and
  trailing white space is the configured promise, the loop terminates as successful;
  \<open>w\<close> itself need not be the promise.
\<close>

theorem promise_whitespace_stripped:
  "active st \<and> \<not> pendingHandoff st
   \<and> \<not> (0 < maxIterations st \<and> maxIterations st \<le> totalIterations st)
   \<and> completionPromise st = Some tag \<and> tag \<noteq> []
   \<and> lastAssistant ms = Some m
   \<and> extractTextContent m = pre @ ''<promise>'' @ w @ ''</promise>'' @ post
   \<and> first_at ''<promise>'' (pre @ ''<promise>'' @ w @ ''</promise>'' @ post) (length pre)
   \<and> first_at ''</promise>'' (w @ ''</promise>'' @ post) (length w)
   \<and> trim w = tag \<longrightarrow>
     agent_end ms ctx (Some st) =
       (None, [UiNotify (LoopComplete tag (totalIterations st) (sessionCount st) (elapsed ctx st)) Info,
               AppendEntry None, SetStatus None])"
proof (intro impI, elim conjE)
  assume pre: "active st" "\<not> pendingHandoff st"
      "\<not> (0 < maxIterations st \<and> maxIterations st \<le> totalIterations st)"
    and tag: "completionPromise st = Some tag" "tag \<noteq> []"
    and m: "lastAssistant ms = Some m"
    and t: "extractTextContent m = pre @ ''<promise>'' @ w @ ''</promise>'' @ post"
    and f1: "first_at ''<promise>'' (pre @ ''<promise>'' @ w @ ''</promise>'' @ post) (length pre)"
    and f2: "first_at ''</promise>'' (w @ ''</promise>'' @ post) (length w)"
    and w: "trim w = tag"
  have "extractPromiseText (extractTextContent m) = Some tag"
    unfolding t using first_marker_literal[OF f1 f2] w by simp
  then have "promise_detected ms st"
    using promise_detected_iff[OF tag, of ms] m by simp
  then show "agent_end ms ctx (Some st) =
       (None, [UiNotify (LoopComplete tag (totalIterations st) (sessionCount st) (elapsed ctx st)) Info,
               AppendEntry None, SetStatus None])"
    using promise_stops[OF pre, of ms ctx] tag by simp
qed

text \<open>
  The theorem at the promise \<open>DONE\<close> and a message whose marker encloses \<open>DONE\<close> between
  spaces.
\<close>

theorem promise_whitespace_stripped_witness:
  "''  DONE  '' \<noteq> ''DONE''
   \<and> agent_end [assistant_says ''All tests pass. <promise>  DONE  </promise> Bye'']
        quiet_context (Some example_state)
      = (None, [UiNotify (LoopComplete ''DONE'' 1 1 60) Info, AppendEntry None, SetStatus None])"
proof -
  have e: "elapsed quiet_context example_state = 60"
    by code_simp
  have f1: "first_at ''<promise>''
              (''All tests pass. '' @ ''<promise>'' @ ''  DONE  '' @ ''</promise>'' @ '' Bye'')
              (length ''All tests pass. '')"
    by code_simp
  have f2: "first_at ''</promise>'' (''  DONE  '' @ ''</promise>'' @ '' Bye'') (length ''  DONE  '')"
    by code_simp
  have t: "trim ''  DONE  '' = ''DONE''"
    by code_simp
  have m: "lastAssistant [assistant_says ''All tests pass. <promise>  DONE  </promise> Bye'']
             = Some (assistant_says ''All tests pass. <promise>  DONE  </promise> Bye'')"
    using lastAssistant_says[of "[]"] by simp
  show ?thesis
    using promise_whitespace_stripped[where st = example_state and tag = "''DONE''"
        and ms = "[assistant_says ''All tests pass. <promise>  DONE  </promise> Bye'']"
        and m = "assistant_says ''All tests pass. <promise>  DONE  </promise> Bye''"
        and pre = "''All tests pass. ''" and w = "''  DONE  ''" and post = "'' Bye''"
        and ctx = quiet_context]
      f1 f2 t m example_state_ok
    by (simp add: e assistant_says_text example_state_fields)
qed

text \<open>
  Claim C10 as stated holds of every text that contains a marker whose trimmed text is the
  promise. A text with such a marker after another marker does not terminate the loop:
  only the first marker is read.
\<close>

theorem later_marker_counterexample:
  "''<promise>NOPE</promise> then <promise>  DONE  </promise>''
     = ''<promise>NOPE</promise> then '' @ ''<promise>'' @ ''  DONE  '' @ ''</promise>''
   \<and> trim ''  DONE  '' = ''DONE''
   \<and> completionPromise example_state = Some ''DONE''
   \<and> fst (agent_end [assistant_says ''<promise>NOPE</promise> then <promise>  DONE  </promise>'']
          quiet_context (Some example_state)) \<noteq> None"
proof -
  have x: "extractPromiseText ''<promise>NOPE</promise> then <promise>  DONE  </promise>'' = Some ''NOPE''"
    by code_simp
  have t: "trim ''  DONE  '' = ''DONE''"
    by code_simp
  have b: "\<not> promise_detected [assistant_says ''<promise>NOPE</promise> then <promise>  DONE  </promise>'']
              example_state"
    using lastAssistant_says[of "[]" "''<promise>NOPE</promise> then <promise>  DONE  </promise>''"]
    by (simp add: promise_detected_def truthy_def example_state_def assistant_says_text x)
  show ?thesis
    using no_promise_continues[OF _ _ _ b, of quiet_context] t
    by (simp add: example_state_def)
qed

text \<open>
  Claim C3. On an \<^verbatim>\<open>agent_end\<close> event of an active loop (no pending handoff,
  max-iterations not reached, no completion promise detected) whose context usage is known
  and at least the threshold: with a plan file configured, the pending-handoff flag is
  set and persisted, the context warning is shown and the only user message sent is the
  request to update the plan file, so the prompt is not resubmitted; without a plan
  file, a warning is shown, both counters are incremented and the prompt is resubmitted.
\<close>

theorem context_threshold_handoff:
  "active st \<and> \<not> pendingHandoff st
   \<and> \<not> (0 < maxIterations st \<and> maxIterations st \<le> totalIterations st)
   \<and> \<not> promise_detected ms st
   \<and> getContextUsagePercent ctx = Some p \<and> js_ge p (contextThreshold st) \<longrightarrow>
     (truthy (planFile st) \<longrightarrow>
        agent_end ms ctx (Some st) =
          (Some (st\<lparr>pendingHandoff := True\<rparr>),
           [AppendEntry (Some (st\<lparr>pendingHandoff := True\<rparr>)),
            SendMessage (ContextWarning p (contextThreshold st) (the (planFile st))),
            SendUserMessage (update_request (the (planFile st)))])
        \<and> (prompt st \<noteq> update_request (the (planFile st)) \<longrightarrow>
             SendUserMessage (prompt st) \<notin> set (snd (agent_end ms ctx (Some st)))))
     \<and> (\<not> truthy (planFile st) \<longrightarrow>
        agent_end ms ctx (Some st) =
          (Some (st\<lparr>iteration := iteration st + 1, totalIterations := totalIterations st + 1\<rparr>),
           [UiNotify (ContextHigh p) Warning,
            AppendEntry (Some (st\<lparr>iteration := iteration st + 1,
                                  totalIterations := totalIterations st + 1\<rparr>)),
            updateStatus ctx (Some (st\<lparr>iteration := iteration st + 1,
                                       totalIterations := totalIterations st + 1\<rparr>)),
            SendMessage (IterationMarker (totalIterations st + 1) (maxIterations st)
                           (completionPromise st)),
            SendUserMessage (prompt st)]))"
proof (intro impI, elim conjE)
  assume pre: "active st" "\<not> pendingHandoff st"
      "\<not> (0 < maxIterations st \<and> maxIterations st \<le> totalIterations st)"
      "\<not> promise_detected ms st"
    and p: "getContextUsagePercent ctx = Some p" "js_ge p (contextThreshold st)"
  have with_plan: "agent_end ms ctx (Some st) =
          (Some (st\<lparr>pendingHandoff := True\<rparr>),
           [AppendEntry (Some (st\<lparr>pendingHandoff := True\<rparr>)),
            SendMessage (ContextWarning p (contextThreshold st) (the (planFile st))),
            SendUserMessage (update_request (the (planFile st)))])"
    if "truthy (planFile st)"
    using pre p that by (simp add: agent_end_def Let_def)
  have without_plan: "agent_end ms ctx (Some st) =
          (Some (st\<lparr>iteration := iteration st + 1, totalIterations := totalIterations st + 1\<rparr>),
           [UiNotify (ContextHigh p) Warning,
            AppendEntry (Some (st\<lparr>iteration := iteration st + 1,
                                  totalIterations := totalIterations st + 1\<rparr>)),
            updateStatus ctx (Some (st\<lparr>iteration := iteration st + 1,
                                       totalIterations := totalIterations st + 1\<rparr>)),
            SendMessage (IterationMarker (totalIterations st + 1) (maxIterations st)
                           (completionPromise st)),
            SendUserMessage (prompt st)])"
    if "\<not> truthy (planFile st)"
    using pre p that by (simp add: agent_end_def Let_def)
  show "(truthy (planFile st) \<longrightarrow>
        agent_end ms ctx (Some st) =
          (Some (st\<lparr>pendingHandoff := True\<rparr>),
           [AppendEntry (Some (st\<lparr>pendingHandoff := True\<rparr>)),
            SendMessage (ContextWarning p (contextThreshold st) (the (planFile st))),
            SendUserMessage (update_request (the (planFile st)))])
        \<and> (prompt st \<noteq> update_request (the (planFile st)) \<longrightarrow>
             SendUserMessage (prompt st) \<notin> set (snd (agent_end ms ctx (Some st)))))
     \<and> (\<not> truthy (planFile st) \<longrightarrow>
        agent_end ms ctx (Some st) =
          (Some (st\<lparr>iteration := iteration st + 1, totalIterations := totalIterations st + 1\<rparr>),
           [UiNotify (ContextHigh p) Warning,
            AppendEntry (Some (st\<lparr>iteration := iteration st + 1,
                                  totalIterations := totalIterations st + 1\<rparr>)),
            updateStatus ctx (Some (st\<lparr>iteration := iteration st + 1,
                                       totalIterations := totalIterations st + 1\<rparr>)),
            SendMessage (IterationMarker (totalIterations st + 1) (maxIterations st)
                           (completionPromise st)),
            SendUserMessage (prompt st)]))"
    using with_plan without_plan by simp
qed

lemma full_percent: "getContextUsagePercent full_context = Some (Num 75)"
  by code_simp

lemma quiet_percent: "getContextUsagePercent quiet_context = Some (Num 25)"
  by code_simp

lemma overfull_percent: "getContextUsagePercent overfull_context = Some (Num 250)"
  by code_simp

lemma no_promise_working:
  "\<not> promise_detected [assistant_says ''working''] example_state"
  "\<not> promise_detected [assistant_says ''working''] example_state_with_plan"
proof -
  have x: "extractPromiseText ''working'' = None" by code_simp
  show "\<not> promise_detected [assistant_says ''working''] example_state"
    "\<not> promise_detected [assistant_says ''working''] example_state_with_plan"
    using lastAssistant_says[of "[]" "''working''"]
    by (simp_all add: promise_detected_def assistant_says_text x example_state_def
        example_state_with_plan_def truthy_def)
qed

text \<open>
  The theorem at 75 per cent usage under a threshold of 70, with and without a plan file.
\<close>

theorem context_threshold_handoff_witness:
  "agent_end [assistant_says ''working''] full_context (Some example_state_with_plan) =
     (Some (example_state_with_plan\<lparr>pendingHandoff := True\<rparr>),
      [AppendEntry (Some (example_state_with_plan\<lparr>pendingHandoff := True\<rparr>)),
       SendMessage (ContextWarning (Num 75) 70 ''PLAN.md''),
       SendUserMessage ''Update PLAN.md with current progress before session handoff.''])
   \<and> SendUserMessage ''build the API''
        \<notin> set (snd (agent_end [assistant_says ''working''] full_context (Some example_state_with_plan)))
   \<and> agent_end [assistant_says ''working''] full_context (Some example_state) =
     (Some (example_state\<lparr>iteration := 2, totalIterations := 2\<rparr>),
      [UiNotify (ContextHigh (Num 75)) Warning,
       AppendEntry (Some (example_state\<lparr>iteration := 2, totalIterations := 2\<rparr>)),
       SetStatus (Some (StatusLine 2 0 1 (Some (Num 75)))),
       SendMessage (IterationMarker 2 0 (Some ''DONE'')),
       SendUserMessage ''build the API''])"
proof -
  have plan: "active example_state_with_plan" "\<not> pendingHandoff example_state_with_plan"
    "\<not> (0 < maxIterations example_state_with_plan
        \<and> maxIterations example_state_with_plan \<le> totalIterations example_state_with_plan)"
    "truthy (planFile example_state_with_plan)" "the (planFile example_state_with_plan) = ''PLAN.md''"
    "contextThreshold example_state_with_plan = 70" "prompt example_state_with_plan = ''build the API''"
    by (simp_all add: example_state_with_plan_def example_state_def truthy_def)
  have u: "update_request ''PLAN.md'' = ''Update PLAN.md with current progress before session handoff.''"
    by (simp add: update_request_def)
  have a: "agent_end [assistant_says ''working''] full_context (Some example_state_with_plan) =
     (Some (example_state_with_plan\<lparr>pendingHandoff := True\<rparr>),
      [AppendEntry (Some (example_state_with_plan\<lparr>pendingHandoff := True\<rparr>)),
       SendMessage (ContextWarning (Num 75) 70 ''PLAN.md''),
       SendUserMessage ''Update PLAN.md with current progress before session handoff.''])
   \<and> SendUserMessage ''build the API''
        \<notin> set (snd (agent_end [assistant_says ''working''] full_context (Some example_state_with_plan)))"
    using context_threshold_handoff[where st = example_state_with_plan and ctx = full_context
        and ms = "[assistant_says ''working'']" and p = "Num 75"]
      plan no_promise_working(2) full_percent
    by (simp add: js_ge_def u)
  have st: "updateStatus full_context (Some (example_state\<lparr>iteration := 2, totalIterations := 2\<rparr>))
              = SetStatus (Some (StatusLine 2 0 1 (Some (Num 75))))"
    by (simp add: updateStatus_def example_state_def full_percent)
  have b: "agent_end [assistant_says ''working''] full_context (Some example_state) =
     (Some (example_state\<lparr>iteration := 2, totalIterations := 2\<rparr>),
      [UiNotify (ContextHigh (Num 75)) Warning,
       AppendEntry (Some (example_state\<lparr>iteration := 2, totalIterations := 2\<rparr>)),
       SetStatus (Some (StatusLine 2 0 1 (Some (Num 75)))),
       SendMessage (IterationMarker 2 0 (Some ''DONE'')),
       SendUserMessage ''build the API''])"
    using context_threshold_handoff[where st = example_state and ctx = full_context
        and ms = "[assistant_says ''working'']" and p = "Num 75"]
      example_state_ok no_promise_working(1) full_percent st
    by (simp add: js_ge_def example_state_fields truthy_def)
  show ?thesis using a b by blast
qed

lemma unknown_percent_no_handoff:
  assumes "getContextUsagePercent ctx = None" "\<not> pendingHandoff st"
  shows "(\<forall>st'. fst (agent_end ms ctx (Some st)) = Some st' \<longrightarrow> \<not> pendingHandoff st')
         \<and> (\<forall>p t f. SendMessage (ContextWarning p t f) \<notin> set (snd (agent_end ms ctx (Some st))))"
  using assms by (auto simp: agent_end_def Let_def updateStatus_def)

lemma unknown_percent_continues:
  assumes "getContextUsagePercent ctx = None" "active st" "\<not> pendingHandoff st"
    "\<not> (0 < maxIterations st \<and> maxIterations st \<le> totalIterations st)"
    "\<not> promise_detected ms st"
  shows "agent_end ms ctx (Some st) =
          (Some (st\<lparr>iteration := iteration st + 1, totalIterations := totalIterations st + 1\<rparr>),
           [AppendEntry (Some (st\<lparr>iteration := iteration st + 1,
                                  totalIterations := totalIterations st + 1\<rparr>)),
            updateStatus ctx (Some (st\<lparr>iteration := iteration st + 1,
                                       totalIterations := totalIterations st + 1\<rparr>)),
            SendMessage (IterationMarker (totalIterations st + 1) (maxIterations st)
                           (completionPromise st)),
            SendUserMessage (prompt st)])"
  using assms by (simp add: agent_end_def Let_def)

lemma percent_between:
  assumes "0 < w" "0 \<le> t"
  shows "\<exists>n. percent_of t w = Num n
           \<and> \<lfloor>of_int t / of_int w * 100 + 1 / 2 - (of_int t / of_int w * 100 :: rat) / 2 ^ 51\<rfloor> \<le> n
           \<and> n \<le> \<lfloor>of_int t / of_int w * 100 + 1 / 2 + (of_int t / of_int w * 100 :: rat) / 2 ^ 51\<rfloor>"
proof -
  define x0 :: rat where "x0 = of_int t / of_int w"
  define g where "g = to_double (to_double x0 * 100)"
  define n where "n = Math_round g"
  have p: "percent_of t w = Num n"
    using assms by (simp add: percent_of_def n_def g_def x0_def)
  have x0: "0 \<le> x0" using assms by (simp add: x0_def)
  have "\<bar>g - x0 * 100\<bar> \<le> x0 * 100 / 2 ^ 51"
    unfolding g_def by (rule double_product_error[OF x0])
  then have lo: "x0 * 100 + 1 / 2 - x0 * 100 / 2 ^ 51 \<le> g + 1 / 2"
    and hi: "g + 1 / 2 \<le> x0 * 100 + 1 / 2 + x0 * 100 / 2 ^ 51"
    by (simp_all only: abs_diff_le_iff) linarith+
  have "\<lfloor>x0 * 100 + 1 / 2 - x0 * 100 / 2 ^ 51\<rfloor> \<le> n" "n \<le> \<lfloor>x0 * 100 + 1 / 2 + x0 * 100 / 2 ^ 51\<rfloor>"
    unfolding n_def Math_round_def using floor_mono[OF lo] floor_mono[OF hi] by simp_all
  with p show ?thesis unfolding x0_def by blast
qed

lemma between_exact:
  fixes x :: rat
  assumes "0 \<le> x" "\<lfloor>x + 1 / 2 - x / 2 ^ 51\<rfloor> \<le> n" "n \<le> \<lfloor>x + 1 / 2 + x / 2 ^ 51\<rfloor>"
  shows "\<lfloor>x + 1 / 2 - x / 2 ^ 51\<rfloor> = \<lfloor>x + 1 / 2 + x / 2 ^ 51\<rfloor> \<longrightarrow> n = Math_round x"
    and "x \<le> 2 ^ 51 \<longrightarrow> \<bar>n - Math_round x\<bar> \<le> 1"
    and "x = of_int k \<and> k < 2 ^ 50 \<longrightarrow> n = k"
proof -
  define e where "e = x / 2 ^ 51"
  have e0: "0 \<le> e" using assms(1) by (simp add: e_def)
  have lo: "\<lfloor>x + 1 / 2 - e\<rfloor> \<le> n" and hi: "n \<le> \<lfloor>x + 1 / 2 + e\<rfloor>"
    using assms(2,3) by (simp_all only: e_def)
  have m1: "\<lfloor>x + 1 / 2 - e\<rfloor> \<le> Math_round x" and m2: "Math_round x \<le> \<lfloor>x + 1 / 2 + e\<rfloor>"
    unfolding Math_round_def using e0 by (intro floor_mono; simp)+
  show "\<lfloor>x + 1 / 2 - x / 2 ^ 51\<rfloor> = \<lfloor>x + 1 / 2 + x / 2 ^ 51\<rfloor> \<longrightarrow> n = Math_round x"
    using lo hi m1 m2 unfolding e_def by linarith
  show "x \<le> 2 ^ 51 \<longrightarrow> \<bar>n - Math_round x\<bar> \<le> 1"
  proof
    assume "x \<le> 2 ^ 51"
    then have e1: "e \<le> 1" by (simp add: e_def field_simps)
    have a: "x + 1 / 2 - 1 \<le> x + 1 / 2 - e" and b: "x + 1 / 2 + e \<le> x + 1 / 2 + 1"
      using e1 by simp_all
    have "\<lfloor>x + 1 / 2 - 1\<rfloor> \<le> \<lfloor>x + 1 / 2 - e\<rfloor>" "\<lfloor>x + 1 / 2 + e\<rfloor> \<le> \<lfloor>x + 1 / 2 + 1\<rfloor>"
      using floor_mono[OF a] floor_mono[OF b] by simp_all
    moreover have "\<lfloor>x + 1 / 2 - 1\<rfloor> = Math_round x - 1" "\<lfloor>x + 1 / 2 + 1\<rfloor> = Math_round x + 1"
      unfolding Math_round_def by linarith+
    ultimately show "\<bar>n - Math_round x\<bar> \<le> 1" using lo hi by linarith
  qed
  show "x = of_int k \<and> k < 2 ^ 50 \<longrightarrow> n = k"
  proof
    assume a: "x = of_int k \<and> k < 2 ^ 50"
    then have "x < 2 ^ 50" by (metis of_int_less_numeral_power_cancel_iff)
    then have e2: "e < 1 / 2" by (simp add: e_def field_simps)
    have "\<lfloor>x + 1 / 2 - e\<rfloor> = k" "\<lfloor>x + 1 / 2 + e\<rfloor> = k"
      using a e0 e2 by (simp_all add: floor_eq_iff) 
    with lo hi show "n = k" by simp
  qed
qed

lemma tie_percent: "getContextUsagePercent tie_context = Some (Num 14)"
  by code_simp

lemma tie_exact: "Math_round (of_int 29000 / of_int 200000 * 100) = 15"
  by (simp add: Math_round_def)

lemma below_threshold_continues:
  assumes "active st" "\<not> pendingHandoff st"
    "\<not> (0 < maxIterations st \<and> maxIterations st \<le> totalIterations st)"
    "\<not> promise_detected ms st"
    "getContextUsagePercent ctx = Some (Num n)" "n < contextThreshold st"
  shows "fst (agent_end ms ctx (Some st))
           = Some (st\<lparr>iteration := iteration st + 1, totalIterations := totalIterations st + 1\<rparr>)"
  using assms by (simp add: agent_end_def Let_def js_ge_def)

text \<open>
  Claim C4 (as amended). The context-usage percentage is unknown exactly when the model
  or the usage of the last assistant turn is absent. Otherwise (for a positive window and
  tokens that are not negative) it is \<^verbatim>\<open>Math.round\<close> of the binary64 product of the
  binary64 quotient tokens / window and 100. With x = tokens / window * 100 computed
  exactly, it is an integer between the floors of x + 1/2 - x / 2^51 and of
  x + 1/2 + x / 2^51: it is the exact x rounded to the nearest integer whenever these
  two floors are equal (x is not within x / 2^51 of a half-integer), it is x itself when
  x is a whole number below 2^50, and it differs from the rounded exact x by at most 1 in
  any case (for x up to 2^51). At 29000 tokens of a window of 200000 it is 14. It is not
  clamped: it is at least 200 when the tokens are at least twice the window, and a value
  above 100 counts as reaching a threshold of at most 100 (with a plan file, the handoff
  becomes pending). With an unknown percentage an event never sets the pending-handoff
  flag nor sends the context warning, and a loop that is not stopped by an earlier check
  continues normally.
\<close>

theorem context_percentage:
  "(getContextUsagePercent ctx = None
      \<longleftrightarrow> model_contextWindow ctx = None \<or> usage_contextTokens ctx = None)
   \<and> (model_contextWindow ctx = Some w \<and> usage_contextTokens ctx = Some t \<and> 0 < w \<and> 0 \<le> t \<longrightarrow>
        (\<exists>n x. x = (of_int t / of_int w * 100 :: rat)
            \<and> getContextUsagePercent ctx = Some (Num n)
            \<and> n = Math_round (to_double (to_double (of_int t / of_int w) * 100))
            \<and> \<bar>of_int n - x\<bar> \<le> 1 / 2 + x / 2 ^ 51
            \<and> \<lfloor>x + 1 / 2 - x / 2 ^ 51\<rfloor> \<le> n \<and> n \<le> \<lfloor>x + 1 / 2 + x / 2 ^ 51\<rfloor>
            \<and> (\<lfloor>x + 1 / 2 - x / 2 ^ 51\<rfloor> = \<lfloor>x + 1 / 2 + x / 2 ^ 51\<rfloor> \<longrightarrow> n = Math_round x)
            \<and> (x \<le> 2 ^ 51 \<longrightarrow> \<bar>n - Math_round x\<bar> \<le> 1)
            \<and> (\<forall>k. x = of_int k \<and> k < 2 ^ 50 \<longrightarrow> n = k)
            \<and> (2 * w \<le> t \<longrightarrow> 200 \<le> n)))
   \<and> getContextUsagePercent tie_context = Some (Num 14)
   \<and> (active st \<and> \<not> pendingHandoff st
      \<and> \<not> (0 < maxIterations st \<and> maxIterations st \<le> totalIterations st)
      \<and> \<not> promise_detected ms st \<and> truthy (planFile st)
      \<and> getContextUsagePercent ctx = Some (Num n) \<and> 100 < n \<and> contextThreshold st \<le> 100 \<longrightarrow>
        fst (agent_end ms ctx (Some st)) = Some (st\<lparr>pendingHandoff := True\<rparr>))
   \<and> (getContextUsagePercent ctx = None \<and> \<not> pendingHandoff st \<longrightarrow>
        (\<forall>st'. fst (agent_end ms ctx (Some st)) = Some st' \<longrightarrow> \<not> pendingHandoff st')
        \<and> (\<forall>p t f. SendMessage (ContextWarning p t f) \<notin> set (snd (agent_end ms ctx (Some st)))))
   \<and> (getContextUsagePercent ctx = None \<and> active st \<and> \<not> pendingHandoff st
      \<and> \<not> (0 < maxIterations st \<and> maxIterations st \<le> totalIterations st)
      \<and> \<not> promise_detected ms st \<longrightarrow>
        fst (agent_end ms ctx (Some st))
          = Some (st\<lparr>iteration := iteration st + 1, totalIterations := totalIterations st + 1\<rparr>)
        \<and> last (snd (agent_end ms ctx (Some st))) = SendUserMessage (prompt st))"
proof -
  have unknown: "getContextUsagePercent ctx = None
      \<longleftrightarrow> model_contextWindow ctx = None \<or> usage_contextTokens ctx = None"
    by (simp add: getContextUsagePercent_def split: option.splits)
  have rounded: "\<exists>n x. x = (of_int t / of_int w * 100 :: rat)
            \<and> getContextUsagePercent ctx = Some (Num n)
            \<and> n = Math_round (to_double (to_double (of_int t / of_int w) * 100))
            \<and> \<bar>of_int n - x\<bar> \<le> 1 / 2 + x / 2 ^ 51
            \<and> \<lfloor>x + 1 / 2 - x / 2 ^ 51\<rfloor> \<le> n \<and> n \<le> \<lfloor>x + 1 / 2 + x / 2 ^ 51\<rfloor>
            \<and> (\<lfloor>x + 1 / 2 - x / 2 ^ 51\<rfloor> = \<lfloor>x + 1 / 2 + x / 2 ^ 51\<rfloor> \<longrightarrow> n = Math_round x)
            \<and> (x \<le> 2 ^ 51 \<longrightarrow> \<bar>n - Math_round x\<bar> \<le> 1)
            \<and> (\<forall>k. x = of_int k \<and> k < 2 ^ 50 \<longrightarrow> n = k)
            \<and> (2 * w \<le> t \<longrightarrow> 200 \<le> n)"
    if c: "model_contextWindow ctx = Some w" "usage_contextTokens ctx = Some t"
      and w: "0 < w" and t: "0 \<le> t"
  proof -
    define x :: rat where "x = of_int t / of_int w * 100"
    have x0: "0 \<le> x" using w t by (simp add: x_def)
    obtain n where n: "percent_of t w = Num n"
      "n = Math_round (to_double (to_double (of_int t / of_int w) * 100))"
      "\<bar>of_int n - x\<bar> \<le> 1 / 2 + x / 2 ^ 51"
      using percent_accuracy[OF w t] unfolding x_def by blast
    obtain n' where n': "percent_of t w = Num n'"
      "\<lfloor>x + 1 / 2 - x / 2 ^ 51\<rfloor> \<le> n'" "n' \<le> \<lfloor>x + 1 / 2 + x / 2 ^ 51\<rfloor>"
      using percent_between[OF w t] unfolding x_def by blast
    from n(1) n'(1) have "n' = n" by simp
    with n' have between: "\<lfloor>x + 1 / 2 - x / 2 ^ 51\<rfloor> \<le> n" "n \<le> \<lfloor>x + 1 / 2 + x / 2 ^ 51\<rfloor>"
      by simp_all
    have g: "getContextUsagePercent ctx = Some (Num n)"
      using c n(1) by (simp add: getContextUsagePercent_def)
    have big: "200 \<le> n" if "2 * w \<le> t"
    proof -
      have "(of_int (2 * w) :: rat) \<le> of_int t" using that by (simp only: of_int_le_iff)
      then have q2: "(2::rat) \<le> of_int t / of_int w" using w by (simp add: field_simps)
      have x200: "200 \<le> x" unfolding x_def using mult_right_mono[OF q2, of 100] by simp
      have small: "x / 2 ^ 51 \<le> x / 1000" using x200 by (intro divide_left_mono) simp_all
      have "x - (1 / 2 + x / 2 ^ 51) \<le> of_int n" using n(3) by (simp only: abs_diff_le_iff)
      with small x200 have "(199::rat) < of_int n" by linarith
      then have "199 < n" by linarith
      then show ?thesis by simp
    qed
    have whole: "\<forall>k. x = of_int k \<and> k < 2 ^ 50 \<longrightarrow> n = k"
      using between_exact(3)[OF x0 between] by blast
    have bigimp: "2 * w \<le> t \<longrightarrow> 200 \<le> n" using big by (rule impI)
    note exact = between_exact(1,2)[OF x0 between]
    show ?thesis
      by (intro exI[of _ n] exI[of _ x] conjI)
         (fact x_def g n(2) n(3) between exact whole bigimp)+
  qed
  have over: "fst (agent_end ms ctx (Some st)) = Some (st\<lparr>pendingHandoff := True\<rparr>)"
    if "active st" "\<not> pendingHandoff st"
       "\<not> (0 < maxIterations st \<and> maxIterations st \<le> totalIterations st)"
       "\<not> promise_detected ms st" "truthy (planFile st)"
       "getContextUsagePercent ctx = Some (Num n)" "100 < n" "contextThreshold st \<le> 100"
    using that by (simp add: agent_end_def Let_def js_ge_def)
  have continues: "fst (agent_end ms ctx (Some st))
          = Some (st\<lparr>iteration := iteration st + 1, totalIterations := totalIterations st + 1\<rparr>)
        \<and> last (snd (agent_end ms ctx (Some st))) = SendUserMessage (prompt st)"
    if "getContextUsagePercent ctx = None" "active st" "\<not> pendingHandoff st"
      "\<not> (0 < maxIterations st \<and> maxIterations st \<le> totalIterations st)"
      "\<not> promise_detected ms st"
    using unknown_percent_continues[OF that] by simp
  have c2: "model_contextWindow ctx = Some w \<and> usage_contextTokens ctx = Some t \<and> 0 < w \<and> 0 \<le> t \<longrightarrow>
        (\<exists>n x. x = (of_int t / of_int w * 100 :: rat)
            \<and> getContextUsagePercent ctx = Some (Num n)
            \<and> n = Math_round (to_double (to_double (of_int t / of_int w) * 100))
            \<and> \<bar>of_int n - x\<bar> \<le> 1 / 2 + x / 2 ^ 51
            \<and> \<lfloor>x + 1 / 2 - x / 2 ^ 51\<rfloor> \<le> n \<and> n \<le> \<lfloor>x + 1 / 2 + x / 2 ^ 51\<rfloor>
            \<and> (\<lfloor>x + 1 / 2 - x / 2 ^ 51\<rfloor> = \<lfloor>x + 1 / 2 + x / 2 ^ 51\<rfloor> \<longrightarrow> n = Math_round x)
            \<and> (x \<le> 2 ^ 51 \<longrightarrow> \<bar>n - Math_round x\<bar> \<le> 1)
            \<and> (\<forall>k. x = of_int k \<and> k < 2 ^ 50 \<longrightarrow> n = k)
            \<and> (2 * w \<le> t \<longrightarrow> 200 \<le> n))"
    by (intro impI, elim conjE) (rule rounded)
  have c4: "active st \<and> \<not> pendingHandoff st
      \<and> \<not> (0 < maxIterations st \<and> maxIterations st \<le> totalIterations st)
      \<and> \<not> promise_detected ms st \<and> truthy (planFile st)
      \<and> getContextUsagePercent ctx = Some (Num n) \<and> 100 < n \<and> contextThreshold st \<le> 100 \<longrightarrow>
        fst (agent_end ms ctx (Some st)) = Some (st\<lparr>pendingHandoff := True\<rparr>)"
    by (intro impI, elim conjE) (rule over)
  have c5: "getContextUsagePercent ctx = None \<and> \<not> pendingHandoff st \<longrightarrow>
        (\<forall>st'. fst (agent_end ms ctx (Some st)) = Some st' \<longrightarrow> \<not> pendingHandoff st')
        \<and> (\<forall>p t f. SendMessage (ContextWarning p t f) \<notin> set (snd (agent_end ms ctx (Some st))))"
    by (intro impI, elim conjE) (rule unknown_percent_no_handoff)
  have c6: "getContextUsagePercent ctx = None \<and> active st \<and> \<not> pendingHandoff st
      \<and> \<not> (0 < maxIterations st \<and> maxIterations st \<le> totalIterations st)
      \<and> \<not> promise_detected ms st \<longrightarrow>
        fst (agent_end ms ctx (Some st))
          = Some (st\<lparr>iteration := iteration st + 1, totalIterations := totalIterations st + 1\<rparr>)
        \<and> last (snd (agent_end ms ctx (Some st))) = SendUserMessage (prompt st)"
    by (intro impI, elim conjE) (rule continues)
  show ?thesis
    by (intro conjI) (fact unknown c2 tie_percent c4 c5 c6)+
qed

text \<open>
  The theorem at 75 per cent, at 250 per cent and at a context without usage figures.
\<close>

theorem context_percentage_witness:
  "getContextUsagePercent full_context = Some (Num 75)
   \<and> getContextUsagePercent overfull_context = Some (Num 250)
   \<and> fst (agent_end [assistant_says ''working''] overfull_context (Some example_state_with_plan))
       = Some (example_state_with_plan\<lparr>pendingHandoff := True\<rparr>)
   \<and> getContextUsagePercent unknown_context = None
   \<and> fst (agent_end [assistant_says ''working''] unknown_context (Some example_state_with_plan))
       = Some (example_state_with_plan\<lparr>iteration := 2, totalIterations := 2\<rparr>)
   \<and> last (snd (agent_end [assistant_says ''working''] unknown_context (Some example_state_with_plan)))
       = SendUserMessage ''build the API''"
proof -
  have plan: "active example_state_with_plan" "\<not> pendingHandoff example_state_with_plan"
    "\<not> (0 < maxIterations example_state_with_plan
        \<and> maxIterations example_state_with_plan \<le> totalIterations example_state_with_plan)"
    "truthy (planFile example_state_with_plan)"
    "contextThreshold example_state_with_plan \<le> 100" "prompt example_state_with_plan = ''build the API''"
    "iteration example_state_with_plan = 1" "totalIterations example_state_with_plan = 1"
    by (simp_all add: example_state_with_plan_def example_state_def truthy_def)
  note known = context_percentage[THEN conjunct2, THEN conjunct1, THEN mp]
  note over = context_percentage[THEN conjunct2, THEN conjunct2, THEN conjunct2, THEN conjunct1, THEN mp]
  note continues = context_percentage[THEN conjunct2, THEN conjunct2, THEN conjunct2, THEN conjunct2,
      THEN conjunct2, THEN mp]
  have a: "getContextUsagePercent full_context = Some (Num 75)"
  proof -
    have "model_contextWindow full_context = Some 200000
        \<and> usage_contextTokens full_context = Some 150000 \<and> (0::int) < 200000 \<and> (0::int) \<le> 150000"
      by (simp add: full_context_def)
    from known[OF this]
    obtain n and x :: rat where x: "x = of_int 150000 / of_int 200000 * 100"
      and n: "getContextUsagePercent full_context = Some (Num n)"
      and k: "\<forall>k. x = of_int k \<and> k < 2 ^ 50 \<longrightarrow> n = k"
      by blast
    from x have "x = of_int 75 \<and> (75::int) < 2 ^ 50" by simp
    with k have "n = 75" by blast
    with n show ?thesis by simp
  qed
  have b: "getContextUsagePercent overfull_context = Some (Num 250)"
  proof -
    have "model_contextWindow overfull_context = Some 200000
        \<and> usage_contextTokens overfull_context = Some 500000 \<and> (0::int) < 200000 \<and> (0::int) \<le> 500000"
      by (simp add: overfull_context_def)
    from known[OF this]
    obtain n and x :: rat where x: "x = of_int 500000 / of_int 200000 * 100"
      and n: "getContextUsagePercent overfull_context = Some (Num n)"
      and k: "\<forall>k. x = of_int k \<and> k < 2 ^ 50 \<longrightarrow> n = k"
      by blast
    from x have "x = of_int 250 \<and> (250::int) < 2 ^ 50" by simp
    with k have "n = 250" by blast
    with n show ?thesis by simp
  qed
  have c: "fst (agent_end [assistant_says ''working''] overfull_context (Some example_state_with_plan))
       = Some (example_state_with_plan\<lparr>pendingHandoff := True\<rparr>)"
  proof (rule over)
    show "active example_state_with_plan \<and> \<not> pendingHandoff example_state_with_plan
      \<and> \<not> (0 < maxIterations example_state_with_plan
           \<and> maxIterations example_state_with_plan \<le> totalIterations example_state_with_plan)
      \<and> \<not> promise_detected [assistant_says ''working''] example_state_with_plan
      \<and> truthy (planFile example_state_with_plan)
      \<and> getContextUsagePercent overfull_context = Some (Num 250) \<and> (100::int) < 250
      \<and> contextThreshold example_state_with_plan \<le> 100"
      using plan(1-5) no_promise_working(2) b by simp
  qed
  have d: "getContextUsagePercent unknown_context = None"
    using context_percentage[where ctx = unknown_context, THEN conjunct1]
    by (simp add: unknown_context_def)
  have e: "fst (agent_end [assistant_says ''working''] unknown_context (Some example_state_with_plan))
       = Some (example_state_with_plan\<lparr>iteration := 2, totalIterations := 2\<rparr>)
     \<and> last (snd (agent_end [assistant_says ''working''] unknown_context (Some example_state_with_plan)))
       = SendUserMessage ''build the API''"
  proof -
    have "getContextUsagePercent unknown_context = None \<and> active example_state_with_plan
      \<and> \<not> pendingHandoff example_state_with_plan
      \<and> \<not> (0 < maxIterations example_state_with_plan
           \<and> maxIterations example_state_with_plan \<le> totalIterations example_state_with_plan)
      \<and> \<not> promise_detected [assistant_says ''working''] example_state_with_plan"
      using plan(1-3) no_promise_working(2) d by simp
    from continues[OF this] show ?thesis by (simp add: plan)
  qed
  show ?thesis using a b c d e by blast
qed

text \<open>
  Claim C4 as stated has the percentage be tokens / window * 100 rounded to the nearest
  integer. At 29000 tokens of a window of 200000 the exact value is 14.5, which rounds to
  15; the binary64 product is just below 14.5 and the percentage is 14. With a plan file
  and a threshold of 15 the handoff does not become pending.
\<close>

theorem exact_rounding_counterexample:
  "model_contextWindow tie_context = Some 200000
   \<and> usage_contextTokens tie_context = Some 29000
   \<and> Math_round (of_int 29000 / of_int 200000 * 100) = 15
   \<and> getContextUsagePercent tie_context = Some (Num 14)
   \<and> fst (agent_end [assistant_says ''working''] tie_context
            (Some (example_state_with_plan\<lparr>contextThreshold := 15\<rparr>)))
       = Some (example_state_with_plan\<lparr>contextThreshold := 15, iteration := 2, totalIterations := 2\<rparr>)"
proof -
  let ?st = "example_state_with_plan\<lparr>contextThreshold := 15\<rparr>"
  have x: "extractPromiseText ''working'' = None" by code_simp
  have np: "\<not> promise_detected [assistant_says ''working''] ?st"
    using lastAssistant_says[of "[]" "''working''"]
    by (simp add: promise_detected_def assistant_says_text x example_state_def
        example_state_with_plan_def truthy_def)
  have "fst (agent_end [assistant_says ''working''] tie_context (Some ?st))
          = Some (?st\<lparr>iteration := iteration ?st + 1, totalIterations := totalIterations ?st + 1\<rparr>)"
    by (rule below_threshold_continues[OF _ _ _ np tie_percent])
       (simp_all add: example_state_with_plan_def example_state_def)
  then have "fst (agent_end [assistant_says ''working''] tie_context (Some ?st))
          = Some (example_state_with_plan\<lparr>contextThreshold := 15, iteration := 2, totalIterations := 2\<rparr>)"
    by (simp add: example_state_with_plan_def example_state_def)
  then show ?thesis
    using tie_percent tie_exact by (simp add: tie_context_def)
qed

lemma example_started:
  "ralph_command ''build the API --max-iterations 3'' example_parsed quiet_context None
     = (Some example_start,
        [AppendEntry (Some example_start),
         SetStatus (Some (StatusLine 1 3 1 (Some (Num 25)))),
         UiNotify (Activated 3 None None 70) Info,
         SendUserMessage ''build the API''])"
proof -
  have h: "\<not> string_includes ''build the API --max-iterations 3'' ''--help''"
    "\<not> string_includes ''build the API --max-iterations 3'' ''-h''"
    "trim ''build the API --max-iterations 3'' \<noteq> []"
    by code_simp+
  show ?thesis
    using h
    by (simp add: ralph_command_def example_parsed_def example_start_def truthy_def Let_def
        updateStatus_def quiet_percent)
      (simp add: quiet_context_def)
qed

text \<open>
  The theorem at the loop \<^verbatim>\<open>/ralph build the API --max-iterations 3\<close>.
\<close>

theorem max_iterations_stop_witness:
  "ralph_command ''build the API --max-iterations 3'' example_parsed quiet_context None
     = (Some example_start,
        [AppendEntry (Some example_start),
         SetStatus (Some (StatusLine 1 3 1 (Some (Num 25)))),
         UiNotify (Activated 3 None None 70) Info,
         SendUserMessage ''build the API''])
   \<and> (\<exists>st1 e1 st2 e2 e3.
        agent_end [assistant_says ''working''] quiet_context (Some example_start)
          = (Some st1, e1 @ [SendUserMessage ''build the API'']) \<and> totalIterations st1 = 2
        \<and> agent_end [assistant_says ''working''] full_context (Some st1)
          = (Some st2, e2 @ [SendUserMessage ''build the API'']) \<and> totalIterations st2 = 3
        \<and> agent_end [assistant_says ''working''] quiet_context (Some st2) = (None, e3)
        \<and> \<not> sends_user_message e3)
   \<and> loop_inv ''build the API''
        (fst (run [AgentEnd [assistant_says ''working''] quiet_context,
                   HandoffCommand quiet_context quiet_context False False,
                   AgentEnd [assistant_says ''working''] full_context] (Some example_start)))"
proof -
  have p: "parsed_maxIterations example_parsed = 3" "parsed_completionPromise example_parsed = None"
    "parsed_planFile example_parsed = None" "parsed_prompt example_parsed = ''build the API''"
    by (simp_all add: example_parsed_def)
  show ?thesis
    using max_iterations_stop[where args = "''build the API --max-iterations 3''"
        and parsed = example_parsed and ?ctx0.0 = quiet_context and ?st0.0 = example_start
        and ?effects0.0 = "[AppendEntry (Some example_start),
                         SetStatus (Some (StatusLine 1 3 1 (Some (Num 25)))),
                         UiNotify (Activated 3 None None 70) Info,
                         SendUserMessage ''build the API'']"
        and events = "[AgentEnd [assistant_says ''working''] quiet_context,
                       HandoffCommand quiet_context quiet_context False False,
                       AgentEnd [assistant_says ''working''] full_context]"
        and ?m1.0 = "[assistant_says ''working'']" and ?c1.0 = quiet_context
        and ?m2.0 = "[assistant_says ''working'']" and ?c2.0 = full_context
        and ?m3.0 = "[assistant_says ''working'']" and ?c3.0 = quiet_context]
      example_started p
    by simp
qed

end
